theory Spec2Isabelle
  imports Main "HOL-Library.Sublist" "HOL-Library.Char_ord" "HOL-Library.Monad_Syntax"
    "HOL-Library.Multiset"
begin

chapter \<open>The S3 bucket resource of the Terraform AWS provider\<close>

text \<open>
  A shallow embedding of \<^verbatim>\<open>aws/resource_aws_s3_bucket.go\<close>: the bucket-name validator, the
  set fingerprints, the recursive delete, the update pass and four of its facet synchronizers
  (website, replication, lifecycle, object lock), and the create path that leads into the
  update pass.  The first part holds the model, the second part the proofs.
\<close>

section \<open>Go values and errors\<close>

text \<open>
  A Go \<^verbatim>\<open>error\<close> value.  \<open>AWSErr code message\<close> is an \<^verbatim>\<open>awserr.Error\<close>;
  \<open>Errorf fmt e\<close> is the result of \<^verbatim>\<open>fmt.Errorf(fmt, ..., e)\<close> (the format string and the
  error it renders; string arguments are not kept); \<open>TimeoutError last\<close> is the
  \<^verbatim>\<open>*resource.TimeoutError\<close> of the retry helper.  A Go \<^verbatim>\<open>error\<close> result is an
  \<open>error option\<close>, \<open>None\<close> being \<^verbatim>\<open>nil\<close>.  A run-time panic inside a function that returns an
  error is the value \<open>GoPanic\<close>.
\<close>

datatype error =
    AWSErr string string
  | Errorf string "error option"
  | TimeoutError "error option"
  | OtherError string
  | GoPanic

text \<open>
  An \<^verbatim>\<open>interface{}\<close> value as the schema layer hands it to the resource: \<^verbatim>\<open>nil\<close>, a bool, an
  int, a string, a \<^verbatim>\<open>[]interface{}\<close>, a \<^verbatim>\<open>*schema.Set\<close> (kept as the list its \<^verbatim>\<open>List()\<close>
  method returns) and a \<^verbatim>\<open>map[string]interface{}\<close> (an association list read with
  \<^const>\<open>map_of\<close>).
\<close>

datatype val =
    VNil
  | VBool bool
  | VInt int
  | VStr string
  | VList "val list"
  | VSet "val list"
  | VMap "(string \<times> val) list"

section \<open>Regular expressions and string helpers\<close>

text \<open>
  The three patterns of \<^verbatim>\<open>validateS3BucketName\<close> are anchored at both ends, so
  \<^verbatim>\<open>MatchString\<close> decides whether the whole string is in the language.  The matcher works by
  derivatives.  A character class is a list of inclusive ranges.
\<close>

datatype rexp =
    Zero
  | One
  | Class "(char \<times> char) list"
  | Alt rexp rexp
  | Seq rexp rexp
  | Star rexp

definition in_class :: "(char \<times> char) list \<Rightarrow> char \<Rightarrow> bool" where
  "in_class rs c = list_ex (\<lambda>(lo, hi). lo \<le> c \<and> c \<le> hi) rs"

fun nullable :: "rexp \<Rightarrow> bool" where
  "nullable Zero = False"
| "nullable One = True"
| "nullable (Class rs) = False"
| "nullable (Alt r s) = (nullable r \<or> nullable s)"
| "nullable (Seq r s) = (nullable r \<and> nullable s)"
| "nullable (Star r) = True"

fun deriv :: "char \<Rightarrow> rexp \<Rightarrow> rexp" where
  "deriv c Zero = Zero"
| "deriv c One = Zero"
| "deriv c (Class rs) = (if in_class rs c then One else Zero)"
| "deriv c (Alt r s) = Alt (deriv c r) (deriv c s)"
| "deriv c (Seq r s) =
     (if nullable r then Alt (Seq (deriv c r) s) (deriv c s) else Seq (deriv c r) s)"
| "deriv c (Star r) = Seq (deriv c r) (Star r)"

fun MatchString :: "rexp \<Rightarrow> string \<Rightarrow> bool" where
  "MatchString r [] = nullable r"
| "MatchString r (c # cs) = MatchString (deriv c r) cs"

text \<open>The derived operators \<^verbatim>\<open>r+\<close>, \<^verbatim>\<open>r?\<close>, \<^verbatim>\<open>r{1,3}\<close>, \<^verbatim>\<open>r{3}\<close> and a literal character.\<close>

definition Plus :: "rexp \<Rightarrow> rexp" where
  "Plus r = Seq r (Star r)"

definition Opt :: "rexp \<Rightarrow> rexp" where
  "Opt r = Alt r One"

definition Rep13 :: "rexp \<Rightarrow> rexp" where
  "Rep13 r = Seq r (Opt (Seq r (Opt r)))"

definition Rep3 :: "rexp \<Rightarrow> rexp" where
  "Rep3 r = Seq r (Seq r r)"

definition Lit :: "char \<Rightarrow> rexp" where
  "Lit c = Class [(c, c)]"

text \<open>\<^verbatim>\<open>[0-9a-z-.]\<close>, \<^verbatim>\<open>[0-9]\<close> and \<^verbatim>\<open>[0-9a-zA-Z-._]\<close>.\<close>

definition class_dns :: "(char \<times> char) list" where
  "class_dns = [(CHR ''0'', CHR ''9''), (CHR ''a'', CHR ''z''), (CHR ''-'', CHR ''-''),
     (CHR ''.'', CHR ''.'')]"

definition class_digit :: "(char \<times> char) list" where
  "class_digit = [(CHR ''0'', CHR ''9'')]"

definition class_home :: "(char \<times> char) list" where
  "class_home = [(CHR ''0'', CHR ''9''), (CHR ''a'', CHR ''z''), (CHR ''A'', CHR ''Z''),
     (CHR ''-'', CHR ''-''), (CHR ''.'', CHR ''.''), (CHR ''_'', CHR ''_'')]"

text \<open>\<^verbatim>\<open>^[0-9a-z-.]+$\<close>\<close>

definition re_dns :: rexp where
  "re_dns = Plus (Class class_dns)"

text \<open>\<^verbatim>\<open>^(?:[0-9]{1,3}\.){3}[0-9]{1,3}$\<close>\<close>

definition re_ip :: rexp where
  "re_ip = Seq (Rep3 (Seq (Rep13 (Class class_digit)) (Lit (CHR ''.''))))
               (Rep13 (Class class_digit))"

text \<open>\<^verbatim>\<open>^[0-9a-zA-Z-._]+$\<close>\<close>

definition re_home :: rexp where
  "re_home = Plus (Class class_home)"

text \<open>\<^verbatim>\<open>strings.HasPrefix\<close>, \<^verbatim>\<open>strings.HasSuffix\<close>, \<^verbatim>\<open>strings.Contains\<close>.\<close>

definition HasPrefix :: "string \<Rightarrow> string \<Rightarrow> bool" where
  "HasPrefix s p = (take (length p) s = p)"

definition HasSuffix :: "string \<Rightarrow> string \<Rightarrow> bool" where
  "HasSuffix s p = (length p \<le> length s \<and> drop (length s - length p) s = p)"

fun Contains :: "string \<Rightarrow> string \<Rightarrow> bool" where
  "Contains [] sub = (sub = [])"
| "Contains (x # xs) sub = (HasPrefix (x # xs) sub \<or> Contains xs sub)"

text \<open>The language of a pattern, against which the matcher is proved correct.\<close>

definition conc :: "string set \<Rightarrow> string set \<Rightarrow> string set" where
  "conc A B = {u @ v | u v. u \<in> A \<and> v \<in> B}"

inductive_set star :: "string set \<Rightarrow> string set" for A :: "string set" where
  star_nil: "[] \<in> star A"
| star_app: "u \<in> A \<Longrightarrow> v \<in> star A \<Longrightarrow> u @ v \<in> star A"

fun lang :: "rexp \<Rightarrow> string set" where
  "lang Zero = {}"
| "lang One = {[]}"
| "lang (Class rs) = {[c] | c. in_class rs c}"
| "lang (Alt r s) = lang r \<union> lang s"
| "lang (Seq r s) = conc (lang r) (lang s)"
| "lang (Star r) = star (lang r)"

section \<open>Bucket name validation\<close>

text \<open>
  \<^verbatim>\<open>validateS3BucketName(value, region)\<close>.  \<^verbatim>\<open>len(value)\<close> counts bytes, as \<^const>\<open>length\<close> does
  on a \<^typ>\<open>string\<close>; every byte of a multi-byte rune lies outside both character classes.
\<close>

definition validateS3BucketName :: "string \<Rightarrow> string \<Rightarrow> error option" where
  "validateS3BucketName val region =
     (if region \<noteq> ''us-east-1'' then
        if length val < 3 \<or> length val > 63 then
          Some (Errorf ''%q must contain from 3 to 63 characters'' None)
        else if \<not> MatchString re_dns val then
          Some (Errorf ''only lowercase alphanumeric characters and hyphens allowed in %q'' None)
        else if MatchString re_ip val then
          Some (Errorf ''%q must not be formatted as an IP address'' None)
        else if HasPrefix val ''.'' then
          Some (Errorf ''%q cannot start with a period'' None)
        else if HasSuffix val ''.'' then
          Some (Errorf ''%q cannot end with a period'' None)
        else if Contains val ''..'' then
          Some (Errorf ''%q can be only one period between labels'' None)
        else None
      else
        if length val > 255 then
          Some (Errorf ''%q must contain less than 256 characters'' None)
        else if \<not> MatchString re_home val then
          Some (Errorf
            ''only alphanumeric characters, hyphens, periods, and underscores allowed in %q'' None)
        else None)"

text \<open>
  The vocabulary of the naming rules as the specification words them: the character kinds,
  and a name shaped like an IPv4 address (four groups of one to three digits between periods).
\<close>

definition is_digit :: "char \<Rightarrow> bool" where
  "is_digit c = (CHR ''0'' \<le> c \<and> c \<le> CHR ''9'')"

definition is_lower :: "char \<Rightarrow> bool" where
  "is_lower c = (CHR ''a'' \<le> c \<and> c \<le> CHR ''z'')"

definition is_upper :: "char \<Rightarrow> bool" where
  "is_upper c = (CHR ''A'' \<le> c \<and> c \<le> CHR ''Z'')"

definition dns_char :: "char \<Rightarrow> bool" where
  "dns_char c = (is_digit c \<or> is_lower c \<or> c = CHR ''-'' \<or> c = CHR ''.'')"

definition home_char :: "char \<Rightarrow> bool" where
  "home_char c =
     (is_digit c \<or> is_lower c \<or> is_upper c \<or> c = CHR ''-'' \<or> c = CHR ''.'' \<or> c = CHR ''_'')"

fun split_on :: "char \<Rightarrow> string \<Rightarrow> string list" where
  "split_on c [] = [[]]"
| "split_on c (x # xs) =
     (if x = c then [] # split_on c xs
      else (case split_on c xs of [] \<Rightarrow> [[x]] | p # ps \<Rightarrow> (x # p) # ps))"

definition digits13 :: "string \<Rightarrow> bool" where
  "digits13 p = (1 \<le> length p \<and> length p \<le> 3 \<and> list_all is_digit p)"

definition ipv4_shaped :: "string \<Rightarrow> bool" where
  "ipv4_shaped w =
     (let ps = split_on (CHR ''.'') w in length ps = 4 \<and> list_all digits13 ps)"

section \<open>Set fingerprints\<close>

text \<open>\<^verbatim>\<open>fmt.Sprintf("%d", n)\<close> and \<^verbatim>\<open>fmt.Sprintf("%t", b)\<close>.\<close>

definition digit_char :: "nat \<Rightarrow> char" where
  "digit_char n = ''0123456789'' ! (n mod 10)"

function show_nat :: "nat \<Rightarrow> string" where
  "show_nat n =
     (if n < 10 then [digit_char n] else show_nat (n div 10) @ [digit_char (n mod 10)])"
  by pat_completeness auto
termination
  by (relation "measure id") auto

definition Sprintf_d :: "int \<Rightarrow> string" where
  "Sprintf_d i = (if i < 0 then ''-'' @ show_nat (nat (- i)) else show_nat (nat i))"

definition Sprintf_t :: "bool \<Rightarrow> string" where
  "Sprintf_t b = (if b then ''true'' else ''false'')"

text \<open>
  One guarded write to the buffer: \<^verbatim>\<open>if v, ok := m[k]; ok { buf.WriteString(fmt.Sprintf("%s-",
  v.(string))) }\<close>, and the same with \<^verbatim>\<open>%d\<close> on \<^verbatim>\<open>v.(int)\<close> and \<^verbatim>\<open>%t\<close> on \<^verbatim>\<open>v.(bool)\<close>.  The
  result is the text written, or \<open>None\<close> when the type assertion panics.
\<close>

definition write_s :: "(string \<times> val) list \<Rightarrow> string \<Rightarrow> string option" where
  "write_s m k =
     (case map_of m k of None \<Rightarrow> Some [] | Some (VStr s) \<Rightarrow> Some (s @ ''-'') | Some _ \<Rightarrow> None)"

definition write_d :: "(string \<times> val) list \<Rightarrow> string \<Rightarrow> string option" where
  "write_d m k =
     (case map_of m k of None \<Rightarrow> Some [] | Some (VInt i) \<Rightarrow> Some (Sprintf_d i @ ''-'')
      | Some _ \<Rightarrow> None)"

definition write_t :: "(string \<times> val) list \<Rightarrow> string \<Rightarrow> string option" where
  "write_t m k =
     (case map_of m k of None \<Rightarrow> Some [] | Some (VBool b) \<Rightarrow> Some (Sprintf_t b @ ''-'')
      | Some _ \<Rightarrow> None)"

text \<open>The write of a nested fingerprint: \<^verbatim>\<open>fmt.Sprintf("%d-", h)\<close>.\<close>

definition write_hash :: "int option \<Rightarrow> string option" where
  "write_hash h = map_option (\<lambda>i. Sprintf_d i @ ''-'') h"

definition expirationHash :: "(string \<Rightarrow> int) \<Rightarrow> val \<Rightarrow> int option" where
  "expirationHash hashcode v =
     (case v of
        VMap m \<Rightarrow> do {
          a \<leftarrow> write_s m ''date'';
          b \<leftarrow> write_d m ''days'';
          c \<leftarrow> write_t m ''expired_object_delete_marker'';
          Some (hashcode (a @ b @ c)) }
      | _ \<Rightarrow> None)"

definition transitionHash :: "(string \<Rightarrow> int) \<Rightarrow> val \<Rightarrow> int option" where
  "transitionHash hashcode v =
     (case v of
        VMap m \<Rightarrow> do {
          a \<leftarrow> write_s m ''date'';
          b \<leftarrow> write_d m ''days'';
          c \<leftarrow> write_s m ''storage_class'';
          Some (hashcode (a @ b @ c)) }
      | _ \<Rightarrow> None)"

definition sourceSseKmsObjectsHash :: "(string \<Rightarrow> int) \<Rightarrow> val \<Rightarrow> int option" where
  "sourceSseKmsObjectsHash hashcode v =
     (case v of
        VMap m \<Rightarrow> do { a \<leftarrow> write_t m ''enabled''; Some (hashcode a) }
      | _ \<Rightarrow> None)"

definition sourceSelectionCriteriaHash :: "(string \<Rightarrow> int) \<Rightarrow> val \<Rightarrow> int option" where
  "sourceSelectionCriteriaHash hashcode v =
     (case v of
        VNil \<Rightarrow> Some 0
      | VMap m \<Rightarrow> do {
          a \<leftarrow> (case map_of m ''sse_kms_encrypted_objects'' of
                  Some (VSet (x # xs)) \<Rightarrow> write_hash (sourceSseKmsObjectsHash hashcode x)
                | _ \<Rightarrow> Some []);
          Some (hashcode a) }
      | _ \<Rightarrow> None)"

definition accessControlTranslationHash :: "(string \<Rightarrow> int) \<Rightarrow> val \<Rightarrow> int option" where
  "accessControlTranslationHash hashcode v =
     (case v of
        VNil \<Rightarrow> Some 0
      | VMap m \<Rightarrow> do { a \<leftarrow> write_s m ''owner''; Some (hashcode a) }
      | _ \<Rightarrow> None)"

definition destinationHash :: "(string \<Rightarrow> int) \<Rightarrow> val \<Rightarrow> int option" where
  "destinationHash hashcode v =
     (case v of
        VMap m \<Rightarrow> do {
          a \<leftarrow> write_s m ''bucket'';
          b \<leftarrow> write_s m ''storage_class'';
          c \<leftarrow> write_s m ''replica_kms_key_id'';
          d \<leftarrow> write_s m ''account'';
          e \<leftarrow> (case map_of m ''access_control_translation'' of
                  Some (VList (x # xs)) \<Rightarrow>
                    if x \<noteq> VNil then write_hash (accessControlTranslationHash hashcode x)
                    else Some []
                | _ \<Rightarrow> Some []);
          Some (hashcode (a @ b @ c @ d @ e)) }
      | _ \<Rightarrow> None)"

definition replicationRuleFilterHash ::
  "(string \<Rightarrow> int) \<Rightarrow> ((string \<times> val) list \<Rightarrow> int) \<Rightarrow> val \<Rightarrow> int option" where
  "replicationRuleFilterHash hashcode tagsMapToHash v =
     (case v of
        VMap m \<Rightarrow> do {
          a \<leftarrow> write_s m ''prefix'';
          b \<leftarrow> (case map_of m ''tags'' of
                  None \<Rightarrow> Some []
                | Some (VMap t) \<Rightarrow> Some (Sprintf_d (tagsMapToHash t) @ ''-'')
                | Some _ \<Rightarrow> None);
          Some (hashcode (a @ b)) }
      | _ \<Rightarrow> None)"

definition rulesHash ::
  "(string \<Rightarrow> int) \<Rightarrow> ((string \<times> val) list \<Rightarrow> int) \<Rightarrow> val \<Rightarrow> int option" where
  "rulesHash hashcode tagsMapToHash v =
     (case v of
        VMap m \<Rightarrow> do {
          a \<leftarrow> write_s m ''id'';
          b \<leftarrow> write_s m ''prefix'';
          c \<leftarrow> write_s m ''status'';
          d \<leftarrow> (case map_of m ''destination'' of
                  Some (VSet (x # xs)) \<Rightarrow> write_hash (destinationHash hashcode x)
                | _ \<Rightarrow> Some []);
          e \<leftarrow> (case map_of m ''source_selection_criteria'' of
                  Some (VSet (x # xs)) \<Rightarrow>
                    if x \<noteq> VNil then write_hash (sourceSelectionCriteriaHash hashcode x)
                    else Some []
                | _ \<Rightarrow> Some []);
          f \<leftarrow> write_d m ''priority'';
          g \<leftarrow> (case map_of m ''filter'' of
                  Some (VList (x # xs)) \<Rightarrow>
                    if x \<noteq> VNil
                    then write_hash (replicationRuleFilterHash hashcode tagsMapToHash x)
                    else Some []
                | _ \<Rightarrow> Some []);
          Some (hashcode (a @ b @ c @ d @ e @ f @ g)) }
      | _ \<Rightarrow> None)"

text \<open>
  Two values with the same fields: equal up to the order of the entries of every map in them,
  the items of lists and sets compared in order.
\<close>

inductive veq :: "val \<Rightarrow> val \<Rightarrow> bool" where
  veq_refl: "veq v v"
| veq_map: "(\<And>k. rel_option veq (map_of m1 k) (map_of m2 k)) \<Longrightarrow> veq (VMap m1) (VMap m2)"
| veq_list: "list_all2 veq xs ys \<Longrightarrow> veq (VList xs) (VList ys)"
| veq_set: "list_all2 veq xs ys \<Longrightarrow> veq (VSet xs) (VSet ys)"

text \<open>
  The same, with the items of lists and sets compared up to their order as well.
\<close>

inductive same_fields :: "val \<Rightarrow> val \<Rightarrow> bool" where
  same_refl: "same_fields v v"
| same_map: "(\<And>k. rel_option same_fields (map_of m1 k) (map_of m2 k)) \<Longrightarrow>
     same_fields (VMap m1) (VMap m2)"
| same_list: "list_all2 same_fields xs zs \<Longrightarrow> mset zs = mset ys \<Longrightarrow>
     same_fields (VList xs) (VList ys)"
| same_set: "list_all2 same_fields xs zs \<Longrightarrow> mset zs = mset ys \<Longrightarrow>
     same_fields (VSet xs) (VSet ys)"

text \<open>
  A value whose nested blocks hold one item at most.  Every nested block of a replication
  rule (\<^verbatim>\<open>destination\<close>, \<^verbatim>\<open>source_selection_criteria\<close>, \<^verbatim>\<open>sse_kms_encrypted_objects\<close>,
  \<^verbatim>\<open>filter\<close>, \<^verbatim>\<open>access_control_translation\<close>) is declared with \<^verbatim>\<open>MaxItems: 1\<close> in the schema.
\<close>

fun single_blocks :: "val \<Rightarrow> bool" where
  "single_blocks (VMap m) = list_all (\<lambda>kv. single_blocks (snd kv)) m"
| "single_blocks (VList xs) = (length xs \<le> 1 \<and> list_all single_blocks xs)"
| "single_blocks (VSet xs) = (length xs \<le> 1 \<and> list_all single_blocks xs)"
| "single_blocks v = True"

text \<open>
  What the specification says of a fingerprint: the digest is the string hash of the fields
  of the record, written one after the other in the declared order of the record type, never
  in the order of the map; an absent field contributes nothing; a nested block contributes
  the decimal fingerprint of its item, and nothing when it is absent or empty.  A record type
  is the list of its fields in declared order, each with its kind: a string, an int, a bool,
  a tag map, or a block kept as a list or as a set; a block comes with the record type of
  its item, as the predicate that tells the items of the type and the fingerprint of an item,
  and a set block says whether a \<^verbatim>\<open>nil\<close> item is tolerated (a list block always tolerates it).
\<close>

datatype kind =
    KString
  | KInt
  | KBool
  | KTags
  | KList "(string \<times> val) list \<Rightarrow> bool" "(string \<times> val) list \<Rightarrow> int"
  | KSet bool "(string \<times> val) list \<Rightarrow> bool" "(string \<times> val) list \<Rightarrow> int"

fun encode :: "((string \<times> val) list \<Rightarrow> int) \<Rightarrow> kind \<Rightarrow> val option \<Rightarrow> string" where
  "encode th KString (Some (VStr s)) = s @ ''-''"
| "encode th KInt (Some (VInt i)) = Sprintf_d i @ ''-''"
| "encode th KBool (Some (VBool b)) = Sprintf_t b @ ''-''"
| "encode th KTags (Some (VMap t)) = Sprintf_d (th t) @ ''-''"
| "encode th (KList ok fp) (Some (VList [VMap m])) = Sprintf_d (fp m) @ ''-''"
| "encode th (KSet nil ok fp) (Some (VSet [VMap m])) = Sprintf_d (fp m) @ ''-''"
| "encode th kd v = []"

text \<open>
  A field that conforms to its kind: absent, or a value of the type the schema gives the
  field, a block holding no item, a tolerated \<^verbatim>\<open>nil\<close> item or one item of its record type.
\<close>

fun conforms_field :: "kind \<Rightarrow> val option \<Rightarrow> bool" where
  "conforms_field kd None = True"
| "conforms_field KString (Some (VStr s)) = True"
| "conforms_field KInt (Some (VInt i)) = True"
| "conforms_field KBool (Some (VBool b)) = True"
| "conforms_field KTags (Some (VMap t)) = True"
| "conforms_field (KList ok fp) (Some (VList [])) = True"
| "conforms_field (KList ok fp) (Some (VList [VNil])) = True"
| "conforms_field (KList ok fp) (Some (VList [VMap m])) = ok m"
| "conforms_field (KSet nil ok fp) (Some (VSet [])) = True"
| "conforms_field (KSet nil ok fp) (Some (VSet [VNil])) = nil"
| "conforms_field (KSet nil ok fp) (Some (VSet [VMap m])) = ok m"
| "conforms_field kd v = False"

definition conforms :: "(string \<times> kind) list \<Rightarrow> (string \<times> val) list \<Rightarrow> bool" where
  "conforms fs m = list_all (\<lambda>f. conforms_field (snd f) (map_of m (fst f))) fs"

definition fingerprint ::
  "(string \<Rightarrow> int) \<Rightarrow> ((string \<times> val) list \<Rightarrow> int) \<Rightarrow> (string \<times> kind) list \<Rightarrow>
     (string \<times> val) list \<Rightarrow> int" where
  "fingerprint hashcode th fs m =
     hashcode (concat (map (\<lambda>f. encode th (snd f) (map_of m (fst f))) fs))"

text \<open>
  The record types, with the fields in the order in which the functions of the source write
  them.
\<close>

definition expiration_fields :: "(string \<times> kind) list" where
  "expiration_fields =
     [(''date'', KString), (''days'', KInt), (''expired_object_delete_marker'', KBool)]"

definition transition_fields :: "(string \<times> kind) list" where
  "transition_fields = [(''date'', KString), (''days'', KInt), (''storage_class'', KString)]"

definition sse_kms_fields :: "(string \<times> kind) list" where
  "sse_kms_fields = [(''enabled'', KBool)]"

definition ssc_fields ::
  "(string \<Rightarrow> int) \<Rightarrow> ((string \<times> val) list \<Rightarrow> int) \<Rightarrow> (string \<times> kind) list" where
  "ssc_fields hashcode th =
     [(''sse_kms_encrypted_objects'',
       KSet False (conforms sse_kms_fields) (fingerprint hashcode th sse_kms_fields))]"

definition act_fields :: "(string \<times> kind) list" where
  "act_fields = [(''owner'', KString)]"

definition destination_fields ::
  "(string \<Rightarrow> int) \<Rightarrow> ((string \<times> val) list \<Rightarrow> int) \<Rightarrow> (string \<times> kind) list" where
  "destination_fields hashcode th =
     [(''bucket'', KString), (''storage_class'', KString), (''replica_kms_key_id'', KString),
      (''account'', KString),
      (''access_control_translation'',
       KList (conforms act_fields) (fingerprint hashcode th act_fields))]"

definition filter_fields :: "(string \<times> kind) list" where
  "filter_fields = [(''prefix'', KString), (''tags'', KTags)]"

definition rule_fields ::
  "(string \<Rightarrow> int) \<Rightarrow> ((string \<times> val) list \<Rightarrow> int) \<Rightarrow> (string \<times> kind) list" where
  "rule_fields hashcode th =
     [(''id'', KString), (''prefix'', KString), (''status'', KString),
      (''destination'',
       KSet False (conforms (destination_fields hashcode th))
         (fingerprint hashcode th (destination_fields hashcode th))),
      (''source_selection_criteria'',
       KSet True (conforms (ssc_fields hashcode th))
         (fingerprint hashcode th (ssc_fields hashcode th))),
      (''priority'', KInt),
      (''filter'', KList (conforms filter_fields) (fingerprint hashcode th filter_fields))]"

section \<open>Request payloads of the S3 API\<close>

text \<open>
  The input structures the resource fills in.  A pointer field is an \<open>option\<close> (\<open>None\<close> for
  \<^verbatim>\<open>nil\<close>), a slice is a list.  Types the resource only passes on are left abstract.
\<close>

typedecl RoutingRule
typedecl Time

datatype Tag = Tag (tag_Key: string) (tag_Value: string)

datatype ObjectIdentifier = ObjectIdentifier (oi_Key: string) (oi_VersionId: string)

record ListObjectVersionsOutput =
  DeleteMarkers :: "(string \<times> string) list"
  Versions :: "(string \<times> string) list"

record CreateBucketInput =
  cb_Bucket :: string
  cb_ACL :: string
  cb_LocationConstraint :: "string option"
  cb_ObjectLockEnabledForBucket :: "bool option"

record RedirectAllRequestsTo =
  HostName :: "string option"
  Protocol :: "string option"

record WebsiteConfiguration =
  IndexDocument :: "string option"
  ErrorDocument :: "string option"
  RedirectAllRequestsTo :: "RedirectAllRequestsTo option"
  RoutingRules :: "RoutingRule list"

record DefaultRetention =
  dr_Mode :: "string option"
  dr_Days :: "int option"
  dr_Years :: "int option"

record ObjectLockConfiguration =
  ObjectLockEnabled :: "string option"
  ol_Rule :: "DefaultRetention option"

text \<open>A filter of a lifecycle or replication rule: \<open>And\<close> (prefix and tags) or \<open>Prefix\<close>.\<close>

record RuleFilter =
  flt_And :: "(string \<times> Tag list) option"
  flt_Prefix :: "string option"

record Destination =
  dst_Bucket :: "string option"
  dst_StorageClass :: "string option"
  dst_ReplicaKmsKeyID :: "string option"
  dst_Account :: "string option"
  dst_Owner :: "string option"

record ReplicationRule =
  rr_Status :: "string option"
  rr_ID :: "string option"
  rr_Destination :: Destination
  rr_SourceSelectionCriteria :: "string option option"
  rr_Priority :: "int option"
  rr_Filter :: "RuleFilter option"
  rr_DeleteMarkerReplication :: "string option"
  rr_Prefix :: "string option"

record ReplicationConfiguration =
  rc_Role :: "string option"
  rc_Rules :: "ReplicationRule list"

record LifecycleExpiration =
  le_Date :: "Time option"
  le_Days :: "int option"
  le_ExpiredObjectDeleteMarker :: "bool option"

record Transition =
  tr_Date :: "Time option"
  tr_Days :: "int option"
  tr_StorageClass :: "string option"

record NoncurrentVersionTransition =
  nt_NoncurrentDays :: "int option"
  nt_StorageClass :: "string option"

record LifecycleRule =
  lr_Filter :: RuleFilter
  lr_ID :: string
  lr_Status :: string
  lr_AbortIncompleteMultipartUpload :: "int option"
  lr_Expiration :: "LifecycleExpiration option"
  lr_NoncurrentVersionExpiration :: "int option"
  lr_Transitions :: "Transition list"
  lr_NoncurrentVersionTransitions :: "NoncurrentVersionTransition list"

section \<open>The remote service, the call trace and the resource data\<close>

text \<open>The API operations the modelled functions issue, each with its input.\<close>

datatype call =
    CreateBucket CreateBucketInput
  | DeleteBucket string
  | ListObjectVersions string
  | DeleteObjects string "ObjectIdentifier list"
  | PutBucketAcl string string
  | PutBucketWebsite string WebsiteConfiguration
  | DeleteBucketWebsite string
  | PutBucketReplication string ReplicationConfiguration
  | DeleteBucketReplication string
  | PutBucketLifecycleConfiguration string "LifecycleRule list"
  | DeleteBucketLifecycle string
  | PutObjectLockConfiguration string "ObjectLockConfiguration option"

text \<open>
  The S3 client over a remote state \<open>'s\<close>: \<open>respond\<close> answers every call whose output the
  resource drops (\<^verbatim>\<open>_, err := ...\<close>), \<open>list_versions\<close> answers \<^verbatim>\<open>ListObjectVersions\<close>.  Nothing
  is assumed of either; a claim about a particular remote behaviour names it.
\<close>

record 's s3conn =
  respond :: "call \<Rightarrow> 's \<Rightarrow> error option \<times> 's"
  list_versions :: "string \<Rightarrow> 's \<Rightarrow> (error + ListObjectVersionsOutput) \<times> 's"

text \<open>
  What a run acts on: the remote state, the trace of the API calls issued so far with the
  error each returned, the log of the facet synchronizers the update pass has entered, and
  the counter behind \<^verbatim>\<open>resource.UniqueId\<close>.
\<close>

record 's world =
  remote :: 's
  trace :: "(call \<times> error option) list"
  synclog :: "string list"
  idgen :: nat

definition s3_call :: "'s s3conn \<Rightarrow> call \<Rightarrow> 's world \<Rightarrow> error option \<times> 's world" where
  "s3_call conn c w =
     (case respond conn c (remote w) of
        (e, s') \<Rightarrow> (e, w\<lparr>remote := s', trace := trace w @ [(c, e)]\<rparr>))"

definition s3_ListObjectVersions ::
  "'s s3conn \<Rightarrow> string \<Rightarrow> 's world \<Rightarrow> (error + ListObjectVersionsOutput) \<times> 's world" where
  "s3_ListObjectVersions conn b w =
     (case list_versions conn b (remote w) of
        (r, s') \<Rightarrow>
          (r, w\<lparr>remote := s',
                 trace := trace w @
                   [(ListObjectVersions b, case r of Inl e \<Rightarrow> Some e | Inr _ \<Rightarrow> None)]\<rparr>))"

text \<open>
  Modelled from the spec: \<^verbatim>\<open>isAWSErr(err, code, message)\<close>, a helper of the provider defined
  outside this file.  The remote "reports" a condition through the code of an
  \<^verbatim>\<open>awserr.Error\<close>; the helper holds when \<^verbatim>\<open>err\<close> is such an error with that code and a
  message containing \<^verbatim>\<open>message\<close>.
\<close>

definition isAWSErr :: "error option \<Rightarrow> string \<Rightarrow> string \<Rightarrow> bool" where
  "isAWSErr err code message =
     (case err of Some (AWSErr c m) \<Rightarrow> c = code \<and> Contains m message | _ \<Rightarrow> False)"

text \<open>
  Modelled from the spec: the retry policy (\<^verbatim>\<open>resource.Retry\<close> of the SDK and the provider's
  \<^verbatim>\<open>retryOnAwsCode\<close>, both outside this file).  The operation is invoked until it succeeds,
  until its error is classified non-retryable, or until the deadline elapses; the deadline is
  a number of further attempts.  On expiry the result is a timeout error holding the last
  error, and the caller makes one final unconditional attempt.
\<close>

datatype RetryError = RetryableError error | NonRetryableError error

fun Retry :: "nat \<Rightarrow> ('w \<Rightarrow> RetryError option \<times> 'w) \<Rightarrow> 'w \<Rightarrow> error option \<times> 'w" where
  "Retry 0 f w =
     (case f w of
        (None, w') \<Rightarrow> (None, w')
      | (Some (NonRetryableError e), w') \<Rightarrow> (Some e, w')
      | (Some (RetryableError e), w') \<Rightarrow> (Some (TimeoutError (Some e)), w'))"
| "Retry (Suc n) f w =
     (case f w of
        (None, w') \<Rightarrow> (None, w')
      | (Some (NonRetryableError e), w') \<Rightarrow> (Some e, w')
      | (Some (RetryableError e), w') \<Rightarrow> Retry n f w')"

definition isResourceTimeoutError :: "error option \<Rightarrow> bool" where
  "isResourceTimeoutError err = (case err of Some (TimeoutError _) \<Rightarrow> True | _ \<Rightarrow> False)"

definition retryOnAwsCode ::
  "nat \<Rightarrow> string \<Rightarrow> ('w \<Rightarrow> error option \<times> 'w) \<Rightarrow> 'w \<Rightarrow> error option \<times> 'w" where
  "retryOnAwsCode deadline code f w =
     (case Retry deadline
             (\<lambda>w. case f w of
                    (None, w') \<Rightarrow> (None, w')
                  | (Some e, w') \<Rightarrow>
                      if isAWSErr (Some e) code [] then (Some (RetryableError e), w')
                      else (Some (NonRetryableError e), w')) w of
        (err, w') \<Rightarrow> if isResourceTimeoutError err then f w' else (err, w'))"

text \<open>
  \<^verbatim>\<open>*schema.ResourceData\<close>: the resource id, the new-resource mark, the keys whose value
  changed, and the attribute values.  \<^verbatim>\<open>d.Get(key)\<close> yields a value of the type the schema
  declares for the key, the zero value when the key is unset; the typed readers below are
  \<^verbatim>\<open>d.Get(key).(T)\<close> for the three top-level types the resource reads.
\<close>

record ResourceData =
  rd_Id :: string
  rd_IsNewResource :: bool
  rd_changed :: "string list"
  rd_attrs :: "(string \<times> val) list"

definition Get_string :: "ResourceData \<Rightarrow> string \<Rightarrow> string" where
  "Get_string d k = (case map_of (rd_attrs d) k of Some (VStr s) \<Rightarrow> s | _ \<Rightarrow> [])"

definition Get_bool :: "ResourceData \<Rightarrow> string \<Rightarrow> bool" where
  "Get_bool d k = (case map_of (rd_attrs d) k of Some (VBool b) \<Rightarrow> b | _ \<Rightarrow> False)"

definition Get_list :: "ResourceData \<Rightarrow> string \<Rightarrow> val list" where
  "Get_list d k = (case map_of (rd_attrs d) k of Some (VList xs) \<Rightarrow> xs | _ \<Rightarrow> [])"

definition HasChange :: "ResourceData \<Rightarrow> string \<Rightarrow> bool" where
  "HasChange d k = (k \<in> set (rd_changed d))"

definition Set_attr :: "ResourceData \<Rightarrow> string \<Rightarrow> val \<Rightarrow> ResourceData" where
  "Set_attr d k v = d\<lparr>rd_attrs := (k, v) # filter (\<lambda>kv. fst kv \<noteq> k) (rd_attrs d)\<rparr>"

section \<open>Delete\<close>

text \<open>
  \<^verbatim>\<open>resourceAwsS3BucketDelete\<close>.  The function calls itself after a forced emptying, with
  nothing in the code bounding the number of rounds, so the model is a partial function:
  \<open>None\<close> is a run that never returns.
\<close>

partial_function (option) resourceAwsS3BucketDelete ::
  "'s s3conn \<Rightarrow> ResourceData \<Rightarrow> 's world \<Rightarrow> (error option \<times> 's world) option" where
  "resourceAwsS3BucketDelete conn d w =
     (case s3_call conn (DeleteBucket (rd_Id d)) w of
        (err, w1) \<Rightarrow>
          if isAWSErr err ''NoSuchBucket'' [] then Some (None, w1)
          else if isAWSErr err ''BucketNotEmpty'' [] \<and> Get_bool d ''force_destroy'' then
            (case s3_ListObjectVersions conn (Get_string d ''bucket'') w1 of
               (Inl e, w2) \<Rightarrow>
                 Some (Some (Errorf ''Error S3 Bucket list Object Versions err: %s'' (Some e)), w2)
             | (Inr resp, w2) \<Rightarrow>
                 (case s3_call conn
                         (DeleteObjects (Get_string d ''bucket'')
                            (map (\<lambda>(k, v). ObjectIdentifier k v) (DeleteMarkers resp) @
                             map (\<lambda>(k, v). ObjectIdentifier k v) (Versions resp))) w2 of
                    (Some e, w3) \<Rightarrow>
                      Some (Some (Errorf ''Error S3 Bucket force_destroy error deleting: %s''
                                    (Some e)), w3)
                  | (None, w3) \<Rightarrow> resourceAwsS3BucketDelete conn d w3))
          else (case err of
                  Some e \<Rightarrow> Some (Some (Errorf ''error deleting S3 Bucket (%s): %s'' (Some e)), w1)
                | None \<Rightarrow> Some (None, w1)))"

text \<open>
  Modelled from the spec: a remote in which the batched delete removes every listed version.
  A bucket is a list of entries (delete-marker flag, key, version id); a listing returns the
  first \<open>page\<close> entries, split into delete markers and versions; a bucket is deleted only when
  it is empty.
\<close>

type_synonym s3state = "string \<Rightarrow> (bool \<times> string \<times> string) list option"

definition NoSuchBucket :: error where
  "NoSuchBucket = AWSErr ''NoSuchBucket'' ''The specified bucket does not exist''"

definition BucketNotEmpty :: error where
  "BucketNotEmpty = AWSErr ''BucketNotEmpty'' ''The bucket you tried to delete is not empty''"

definition entry_id :: "bool \<times> string \<times> string \<Rightarrow> ObjectIdentifier" where
  "entry_id e = ObjectIdentifier (fst (snd e)) (snd (snd e))"

definition ideal_respond :: "call \<Rightarrow> s3state \<Rightarrow> error option \<times> s3state" where
  "ideal_respond c s =
     (case c of
        DeleteBucket b \<Rightarrow>
          (case s b of
             None \<Rightarrow> (Some NoSuchBucket, s)
           | Some [] \<Rightarrow> (None, s(b := None))
           | Some (e # es) \<Rightarrow> (Some BucketNotEmpty, s))
      | DeleteObjects b objs \<Rightarrow>
          (case s b of
             None \<Rightarrow> (Some NoSuchBucket, s)
           | Some es \<Rightarrow> (None, s(b \<mapsto> filter (\<lambda>e. entry_id e \<notin> set objs) es)))
      | _ \<Rightarrow> (None, s))"

definition ideal_list ::
  "nat \<Rightarrow> string \<Rightarrow> s3state \<Rightarrow> (error + ListObjectVersionsOutput) \<times> s3state" where
  "ideal_list page b s =
     (case s b of
        None \<Rightarrow> (Inl NoSuchBucket, s)
      | Some es \<Rightarrow>
          (Inr \<lparr>DeleteMarkers = map snd (filter fst (take page es)),
                Versions = map snd (filter (\<lambda>e. \<not> fst e) (take page es))\<rparr>, s))"

definition ideal_s3 :: "nat \<Rightarrow> s3state s3conn" where
  "ideal_s3 page = \<lparr>respond = ideal_respond, list_versions = ideal_list page\<rparr>"

text \<open>The objects a listing with page size \<open>page\<close> makes the resource ask to delete: the
  delete markers of the page, then its versions.\<close>

definition listed :: "nat \<Rightarrow> (bool \<times> string \<times> string) list \<Rightarrow> ObjectIdentifier list" where
  "listed page es = map entry_id (filter fst (take page es)) @
                    map entry_id (filter (\<lambda>e. \<not> fst e) (take page es))"

text \<open>The calls of a trace segment that are successful deletions of bucket \<open>b\<close>, and the
  objects a trace segment asked to delete.\<close>

definition bucket_deletes :: "string \<Rightarrow> (call \<times> error option) list \<Rightarrow> (call \<times> error option) list" where
  "bucket_deletes b tr = filter (\<lambda>ce. ce = (DeleteBucket b, None)) tr"

fun requested_objects :: "(call \<times> error option) list \<Rightarrow> ObjectIdentifier list" where
  "requested_objects [] = []"
| "requested_objects ((DeleteObjects b objs, e) # tr) = objs @ requested_objects tr"
| "requested_objects (ce # tr) = requested_objects tr"

text \<open>Whether a trace segment holds a listing or an object deletion.\<close>

fun is_emptying_call :: "call \<times> error option \<Rightarrow> bool" where
  "is_emptying_call (ListObjectVersions b, e) = True"
| "is_emptying_call (DeleteObjects b objs, e) = True"
| "is_emptying_call ce = False"

section \<open>Reading dynamic values\<close>

text \<open>
  The Go idioms by which the resource reads an \<^verbatim>\<open>interface{}\<close>.  A one-result type assertion
  \<^verbatim>\<open>x.(T)\<close> panics on a value of another type (and on \<^verbatim>\<open>nil\<close>): the readers named
  \<open>assert_\<close> return \<open>None\<close> for the panic.  The two-result form \<^verbatim>\<open>v, ok := x.(T)\<close> never panics.
\<close>

definition assert_string :: "val option \<Rightarrow> string option" where
  "assert_string x = (case x of Some (VStr s) \<Rightarrow> Some s | _ \<Rightarrow> None)"

definition assert_int :: "val option \<Rightarrow> int option" where
  "assert_int x = (case x of Some (VInt i) \<Rightarrow> Some i | _ \<Rightarrow> None)"

definition assert_bool :: "val option \<Rightarrow> bool option" where
  "assert_bool x = (case x of Some (VBool b) \<Rightarrow> Some b | _ \<Rightarrow> None)"

definition assert_map :: "val option \<Rightarrow> (string \<times> val) list option" where
  "assert_map x = (case x of Some (VMap m) \<Rightarrow> Some m | _ \<Rightarrow> None)"

definition assert_set :: "val option \<Rightarrow> val list option" where
  "assert_set x = (case x of Some (VSet xs) \<Rightarrow> Some xs | _ \<Rightarrow> None)"

text \<open>\<^verbatim>\<open>if v, ok := m[k]; ok { s = v.(string) }\<close> on a variable \<^verbatim>\<open>s\<close> that starts empty.\<close>

definition read_string :: "(string \<times> val) list \<Rightarrow> string \<Rightarrow> string option" where
  "read_string m k = (case map_of m k of None \<Rightarrow> Some [] | Some v \<Rightarrow> assert_string (Some v))"

text \<open>
  \<^verbatim>\<open>if x, ok := m[k]; ok && x != "" { ... x.(string) ... }\<close>: the comparison is between
  interfaces, so a value that is not a string passes it and the assertion panics.  The result
  is the panic, or the string when there is a non-empty one.
\<close>

definition present_nonempty :: "val option \<Rightarrow> string option option" where
  "present_nonempty x =
     (case x of
        None \<Rightarrow> Some None
      | Some (VStr s) \<Rightarrow> Some (if s = [] then None else Some s)
      | Some _ \<Rightarrow> None)"

text \<open>\<^verbatim>\<open>if val, ok := x.(string); ok && val != ""\<close>, and the like on ints and bools.\<close>

definition nonempty_string :: "val option \<Rightarrow> string option" where
  "nonempty_string x = (case x of Some (VStr s) \<Rightarrow> if s = [] then None else Some s | _ \<Rightarrow> None)"

definition int_above :: "int \<Rightarrow> val option \<Rightarrow> int option" where
  "int_above lo x = (case x of Some (VInt i) \<Rightarrow> if lo \<le> i then Some i else None | _ \<Rightarrow> None)"

definition ok_bool :: "val option \<Rightarrow> bool option" where
  "ok_bool x = (case x of Some (VBool b) \<Rightarrow> Some b | _ \<Rightarrow> None)"

text \<open>\<^verbatim>\<open>if s, ok := x.(*schema.Set); ok && s.Len() > 0 { ... s.List()[0] ... }\<close>, and the same on a
  \<^verbatim>\<open>[]interface{}\<close>.\<close>

definition first_of_set :: "val option \<Rightarrow> val option" where
  "first_of_set x = (case x of Some (VSet (y # ys)) \<Rightarrow> Some y | _ \<Rightarrow> None)"

definition first_of_list :: "val option \<Rightarrow> val option" where
  "first_of_list x = (case x of Some (VList (y # ys)) \<Rightarrow> Some y | _ \<Rightarrow> None)"

text \<open>\<^verbatim>\<open>d.Get(path).(*schema.Set).List()\<close> for a set nested in a rule: the list of the set under
  the rule's key, empty when the set is unset.\<close>

definition set_list :: "(string \<times> val) list \<Rightarrow> string \<Rightarrow> val list" where
  "set_list m k = (case map_of m k of Some (VSet xs) \<Rightarrow> xs | _ \<Rightarrow> [])"

section \<open>What the resource takes from its environment\<close>

text \<open>
  The library functions and helpers the modelled code calls but does not define, and the two
  retry deadlines (as numbers of further attempts): \<^verbatim>\<open>url.Parse\<close> with the four fields of its
  result the resource reads, \<^verbatim>\<open>json.Unmarshal\<close> into routing rules, \<^verbatim>\<open>time.Parse\<close> with the
  RFC 3339 layout, the provider's \<^verbatim>\<open>tagsFromMapS3\<close>, the text \<^verbatim>\<open>resource.UniqueId\<close> appends for
  the n-th identifier it generates, and the region of the client.
\<close>

record URL =
  Scheme :: string
  Host :: string
  Path :: string
  RawQuery :: string

record env =
  deadline_1m :: nat
  deadline_5m :: nat
  url_Parse :: "string \<Rightarrow> error + URL"
  json_Unmarshal :: "string \<Rightarrow> error + RoutingRule list"
  time_Parse :: "string \<Rightarrow> error + Time"
  tagsFromMapS3 :: "(string \<times> val) list \<Rightarrow> Tag list"
  unique_suffix :: "nat \<Rightarrow> string"
  client_region :: string

text \<open>
  \<^verbatim>\<open>resource.PrefixedUniqueId\<close> and \<^verbatim>\<open>resource.UniqueId\<close> of the SDK: the prefix, followed by
  the suffix for the current value of the counter of the generator, which the call increments.
  The SDK builds the suffix so that no two calls give the same identifier; where a theorem
  needs this, it assumes that \<^const>\<open>unique_suffix\<close> is injective.
\<close>

definition PrefixedUniqueId :: "env \<Rightarrow> string \<Rightarrow> 's world \<Rightarrow> string \<times> 's world" where
  "PrefixedUniqueId e pre w = (pre @ unique_suffix e (idgen w), w\<lparr>idgen := Suc (idgen w)\<rparr>)"

definition UniqueId :: "env \<Rightarrow> 's world \<Rightarrow> string \<times> 's world" where
  "UniqueId e w = PrefixedUniqueId e ''terraform-'' w"

text \<open>
  The pattern of the resource's retried calls: \<^verbatim>\<open>resource.Retry\<close> with a classifier of the
  errors to retry, then \<^verbatim>\<open>if isResourceTimeoutError(err) { _, err = call }\<close>.
\<close>

definition retried ::
  "nat \<Rightarrow> (error \<Rightarrow> bool) \<Rightarrow> ('w \<Rightarrow> error option \<times> 'w) \<Rightarrow> 'w \<Rightarrow> error option \<times> 'w" where
  "retried deadline retryable f w =
     (case Retry deadline
             (\<lambda>w. case f w of
                    (None, w') \<Rightarrow> (None, w')
                  | (Some e, w') \<Rightarrow>
                      if retryable e then (Some (RetryableError e), w')
                      else (Some (NonRetryableError e), w')) w of
        (err, w') \<Rightarrow> if isResourceTimeoutError err then f w' else (err, w'))"

text \<open>\<^verbatim>\<open>if err != nil { return fmt.Errorf(format, err) }; return nil\<close>\<close>

definition wrap_error :: "string \<Rightarrow> error option \<times> 'w \<Rightarrow> error option \<times> 'w" where
  "wrap_error format r = (case r of (Some e, w) \<Rightarrow> (Some (Errorf format (Some e)), w)
     | (None, w) \<Rightarrow> (None, w))"

section \<open>The ACL synchronizer\<close>

definition resourceAwsS3BucketAclUpdate ::
  "env \<Rightarrow> 's s3conn \<Rightarrow> ResourceData \<Rightarrow> 's world \<Rightarrow> error option \<times> 's world" where
  "resourceAwsS3BucketAclUpdate e conn d w =
     wrap_error ''Error putting S3 ACL: %s''
       (retryOnAwsCode (deadline_1m e) ''NoSuchBucket''
          (s3_call conn (PutBucketAcl (Get_string d ''bucket'') (Get_string d ''acl''))) w)"

section \<open>The website synchronizer\<close>

text \<open>The redirect target of \<^verbatim>\<open>resourceAwsS3BucketWebsitePut\<close> for a non-empty
  \<^verbatim>\<open>redirect_all_requests_to\<close>.\<close>

definition redirectAllRequestsTo :: "env \<Rightarrow> string \<Rightarrow> RedirectAllRequestsTo" where
  "redirectAllRequestsTo e r =
     (case url_Parse e r of
        Inr u \<Rightarrow>
          if Scheme u \<noteq> [] then
            \<lparr>HostName = Some (Host u @ (if Path u \<noteq> [] then Path u else []) @
                              (if RawQuery u \<noteq> [] then ''?'' @ RawQuery u else [])),
             Protocol = Some (Scheme u)\<rparr>
          else \<lparr>HostName = Some r, Protocol = None\<rparr>
      | Inl err \<Rightarrow> \<lparr>HostName = Some r, Protocol = None\<rparr>)"

text \<open>
  \<^verbatim>\<open>resourceAwsS3BucketWebsitePut\<close> up to the request: the four reads, the check that an index
  document or a redirect is given, and the configuration.  No call is issued before the
  request is complete.
\<close>

definition websitePutInput :: "env \<Rightarrow> (string \<times> val) list \<Rightarrow> error + WebsiteConfiguration" where
  "websitePutInput e website =
     (case do {
             a \<leftarrow> read_string website ''index_document'';
             b \<leftarrow> read_string website ''error_document'';
             c \<leftarrow> read_string website ''redirect_all_requests_to'';
             r \<leftarrow> read_string website ''routing_rules'';
             Some (a, b, c, r) } of
        None \<Rightarrow> Inl GoPanic
      | Some (indexDocument, errorDocument, redirect, routingRules) \<Rightarrow>
          if indexDocument = [] \<and> redirect = [] then
            Inl (Errorf ''Must specify either index_document or redirect_all_requests_to.'' None)
          else
            (case (if routingRules \<noteq> [] then json_Unmarshal e routingRules else Inr []) of
               Inl err \<Rightarrow> Inl err
             | Inr rules \<Rightarrow>
                 Inr \<lparr>IndexDocument = (if indexDocument \<noteq> [] then Some indexDocument else None),
                      ErrorDocument = (if errorDocument \<noteq> [] then Some errorDocument else None),
                      RedirectAllRequestsTo =
                        (if redirect \<noteq> [] then Some (redirectAllRequestsTo e redirect) else None),
                      RoutingRules = rules\<rparr>))"

definition resourceAwsS3BucketWebsitePut ::
  "env \<Rightarrow> 's s3conn \<Rightarrow> ResourceData \<Rightarrow> (string \<times> val) list \<Rightarrow> 's world \<Rightarrow>
     error option \<times> 's world" where
  "resourceAwsS3BucketWebsitePut e conn d website w =
     (case websitePutInput e website of
        Inl err \<Rightarrow> (Some err, w)
      | Inr websiteConfiguration \<Rightarrow>
          wrap_error ''Error putting S3 website: %s''
            (retryOnAwsCode (deadline_1m e) ''NoSuchBucket''
               (s3_call conn (PutBucketWebsite (Get_string d ''bucket'') websiteConfiguration)) w))"

definition resourceAwsS3BucketWebsiteDelete ::
  "env \<Rightarrow> 's s3conn \<Rightarrow> ResourceData \<Rightarrow> 's world \<Rightarrow> error option \<times> ResourceData \<times> 's world" where
  "resourceAwsS3BucketWebsiteDelete e conn d w =
     (case retryOnAwsCode (deadline_1m e) ''NoSuchBucket''
             (s3_call conn (DeleteBucketWebsite (Get_string d ''bucket''))) w of
        (Some err, w') \<Rightarrow> (Some (Errorf ''Error deleting S3 website: %s'' (Some err)), d, w')
      | (None, w') \<Rightarrow>
          (None, Set_attr (Set_attr d ''website_endpoint'' (VStr [])) ''website_domain'' (VStr []),
           w'))"

definition resourceAwsS3BucketWebsiteUpdate ::
  "env \<Rightarrow> 's s3conn \<Rightarrow> ResourceData \<Rightarrow> 's world \<Rightarrow> error option \<times> ResourceData \<times> 's world" where
  "resourceAwsS3BucketWebsiteUpdate e conn d w =
     (case Get_list d ''website'' of
        [] \<Rightarrow> resourceAwsS3BucketWebsiteDelete e conn d w
      | VNil # ws \<Rightarrow> (case resourceAwsS3BucketWebsitePut e conn d [] w of (err, w') \<Rightarrow> (err, d, w'))
      | VMap m # ws \<Rightarrow> (case resourceAwsS3BucketWebsitePut e conn d m w of (err, w') \<Rightarrow> (err, d, w'))
      | _ # ws \<Rightarrow> (Some GoPanic, d, w))"

section \<open>The replication synchronizer\<close>

text \<open>
  The rule builders of \<^verbatim>\<open>resourceAwsS3BucketReplicationConfigurationUpdate\<close>, in the order of
  the source; \<open>None\<close> is a panic of a type assertion.
\<close>

definition replicationDestination :: "(string \<times> val) list \<Rightarrow> Destination option" where
  "replicationDestination rr =
     (case first_of_set (map_of rr ''destination'') of
        None \<Rightarrow>
          Some \<lparr>dst_Bucket = None, dst_StorageClass = None, dst_ReplicaKmsKeyID = None,
                dst_Account = None, dst_Owner = None\<rparr>
      | Some x \<Rightarrow> do {
          bd \<leftarrow> assert_map (Some x);
          bucket \<leftarrow> assert_string (map_of bd ''bucket'');
          storageClass \<leftarrow> present_nonempty (map_of bd ''storage_class'');
          replicaKmsKeyId \<leftarrow> present_nonempty (map_of bd ''replica_kms_key_id'');
          account \<leftarrow> present_nonempty (map_of bd ''account_id'');
          owner \<leftarrow> (case first_of_list (map_of bd ''access_control_translation'') of
                      None \<Rightarrow> Some None
                    | Some y \<Rightarrow> do {
                        aclTranslationValues \<leftarrow> assert_map (Some y);
                        ow \<leftarrow> assert_string (map_of aclTranslationValues ''owner'');
                        Some (Some ow) });
          Some \<lparr>dst_Bucket = Some bucket, dst_StorageClass = storageClass,
                dst_ReplicaKmsKeyID = replicaKmsKeyId, dst_Account = account,
                dst_Owner = owner\<rparr> })"

definition replicationSourceSelectionCriteria ::
  "(string \<times> val) list \<Rightarrow> string option option option" where
  "replicationSourceSelectionCriteria rr =
     (case first_of_set (map_of rr ''source_selection_criteria'') of
        None \<Rightarrow> Some None
      | Some x \<Rightarrow> do {
          sscValues \<leftarrow> assert_map (Some x);
          status \<leftarrow> (case first_of_set (map_of sscValues ''sse_kms_encrypted_objects'') of
                       None \<Rightarrow> Some None
                     | Some y \<Rightarrow> do {
                         sseKmsValues \<leftarrow> assert_map (Some y);
                         enabled \<leftarrow> assert_bool (map_of sseKmsValues ''enabled'');
                         Some (Some (if enabled then ''Enabled'' else ''Disabled'')) });
          Some (Some status) })"

text \<open>The choice between the two rule schemas: priority, filter, delete-marker replication
  and legacy prefix of the rule.\<close>

definition replicationRuleSchema ::
  "env \<Rightarrow> (string \<times> val) list \<Rightarrow>
     (int option \<times> RuleFilter option \<times> string option \<times> string option) option" where
  "replicationRuleSchema e rr =
     (case (case first_of_list (map_of rr ''filter'') of
              Some f0 \<Rightarrow> if f0 \<noteq> VNil then Some f0 else None
            | None \<Rightarrow> None) of
        Some f0 \<Rightarrow> do {
          priority \<leftarrow> assert_int (map_of rr ''priority'');
          ruleFilter \<leftarrow> assert_map (Some f0);
          tags \<leftarrow> assert_map (map_of ruleFilter ''tags'');
          prefix \<leftarrow> assert_string (map_of ruleFilter ''prefix'');
          Some (Some priority,
                Some (if length tags > 0
                      then \<lparr>flt_And = Some (prefix, tagsFromMapS3 e tags), flt_Prefix = None\<rparr>
                      else \<lparr>flt_And = None, flt_Prefix = Some prefix\<rparr>),
                Some ''Disabled'', None) }
      | None \<Rightarrow> do {
          prefix \<leftarrow> assert_string (map_of rr ''prefix'');
          Some (None, None, None, Some prefix) })"

text \<open>One rule; the inner \<open>None\<close> is a rule without status, which the loop skips.\<close>

definition replicationRule :: "env \<Rightarrow> val \<Rightarrow> ReplicationRule option option" where
  "replicationRule e v = do {
     rr \<leftarrow> assert_map (Some v);
     status \<leftarrow> present_nonempty (map_of rr ''status'');
     (case status of
        None \<Rightarrow> Some None
      | Some st \<Rightarrow> do {
          rrid \<leftarrow> present_nonempty (map_of rr ''id'');
          ruleDestination \<leftarrow> replicationDestination rr;
          ssc \<leftarrow> replicationSourceSelectionCriteria rr;
          sch \<leftarrow> replicationRuleSchema e rr;
          Some (Some \<lparr>rr_Status = Some st, rr_ID = rrid, rr_Destination = ruleDestination,
                      rr_SourceSelectionCriteria = ssc, rr_Priority = fst sch,
                      rr_Filter = fst (snd sch),
                      rr_DeleteMarkerReplication = fst (snd (snd sch)),
                      rr_Prefix = snd (snd (snd sch))\<rparr>) }) }"

fun replicationRules :: "env \<Rightarrow> val list \<Rightarrow> ReplicationRule list option" where
  "replicationRules e [] = Some []"
| "replicationRules e (v # vs) = do {
     r \<leftarrow> replicationRule e v;
     rs \<leftarrow> replicationRules e vs;
     Some (case r of None \<Rightarrow> rs | Some x \<Rightarrow> x # rs) }"

definition replicationConfigurationInput :: "env \<Rightarrow> val \<Rightarrow> ReplicationConfiguration option" where
  "replicationConfigurationInput e c0 = do {
     c \<leftarrow> assert_map (Some c0);
     role \<leftarrow> (case map_of c ''role'' of
                None \<Rightarrow> Some None
              | Some v \<Rightarrow> map_option Some (assert_string (Some v)));
     rcRules \<leftarrow> assert_set (map_of c ''rules'');
     rules \<leftarrow> replicationRules e rcRules;
     Some \<lparr>rc_Role = role, rc_Rules = rules\<rparr> }"

text \<open>
  The versioning check: \<^verbatim>\<open>d.GetOk("versioning")\<close> holds when the list is not empty, and then
  \<^verbatim>\<open>v[0].(map[string]interface{})["enabled"].(bool)\<close> is read.
\<close>

definition hasVersioning :: "ResourceData \<Rightarrow> bool option" where
  "hasVersioning d =
     (case Get_list d ''versioning'' of
        [] \<Rightarrow> Some False
      | v0 # vs \<Rightarrow> do { m \<leftarrow> assert_map (Some v0); assert_bool (map_of m ''enabled'') })"

definition versioning_not_propagated :: string where
  "versioning_not_propagated =
     ''Versioning must be '' @ [CHR 0x27] @ ''Enabled'' @ [CHR 0x27] @ '' on the bucket''"

definition resourceAwsS3BucketReplicationConfigurationUpdate ::
  "env \<Rightarrow> 's s3conn \<Rightarrow> ResourceData \<Rightarrow> 's world \<Rightarrow> error option \<times> 's world" where
  "resourceAwsS3BucketReplicationConfigurationUpdate e conn d w =
     (case Get_list d ''replication_configuration'' of
        [] \<Rightarrow>
          wrap_error ''Error removing S3 bucket replication: %s''
            (s3_call conn (DeleteBucketReplication (Get_string d ''bucket'')) w)
      | c0 # cs \<Rightarrow>
          (case hasVersioning d of
             None \<Rightarrow> (Some GoPanic, w)
           | Some False \<Rightarrow>
               (Some (Errorf ''versioning must be enabled to allow S3 bucket replication'' None), w)
           | Some True \<Rightarrow>
               (case replicationConfigurationInput e c0 of
                  None \<Rightarrow> (Some GoPanic, w)
                | Some rc \<Rightarrow>
                    wrap_error ''Error putting S3 replication configuration: %s''
                      (retried (deadline_1m e)
                         (\<lambda>err. isAWSErr (Some err) ''NoSuchBucket'' [] \<or>
                                isAWSErr (Some err) ''InvalidRequest'' versioning_not_propagated)
                         (s3_call conn (PutBucketReplication (Get_string d ''bucket'') rc)) w))))"

section \<open>The lifecycle synchronizer\<close>

definition lifecycleRuleFilter :: "env \<Rightarrow> (string \<times> val) list \<Rightarrow> RuleFilter option" where
  "lifecycleRuleFilter e r = do {
     tags \<leftarrow> assert_map (map_of r ''tags'');
     prefix \<leftarrow> assert_string (map_of r ''prefix'');
     Some (if length tags > 0
           then \<lparr>flt_And = Some (prefix, tagsFromMapS3 e tags), flt_Prefix = None\<rparr>
           else \<lparr>flt_And = None, flt_Prefix = Some prefix\<rparr>) }"

definition lifecycleDate :: "env \<Rightarrow> string \<Rightarrow> error + Time" where
  "lifecycleDate e val =
     (case time_Parse e (val @ ''T00:00:00Z'') of
        Inl err \<Rightarrow>
          Inl (Errorf ''Error Parsing AWS S3 Bucket Lifecycle Expiration Date: %s'' (Some err))
      | Inr t \<Rightarrow> Inr t)"

definition lifecycleExpiration ::
  "env \<Rightarrow> (string \<times> val) list \<Rightarrow> error + LifecycleExpiration option" where
  "lifecycleExpiration e r =
     (case set_list r ''expiration'' of
        [] \<Rightarrow> Inr None
      | x # xs \<Rightarrow>
          (case assert_map (Some x) of
             None \<Rightarrow> Inl GoPanic
           | Some ex \<Rightarrow>
               (case nonempty_string (map_of ex ''date'') of
                  Some val \<Rightarrow>
                    (case lifecycleDate e val of
                       Inl err \<Rightarrow> Inl err
                     | Inr t \<Rightarrow>
                         Inr (Some \<lparr>le_Date = Some t, le_Days = None,
                                    le_ExpiredObjectDeleteMarker = None\<rparr>))
                | None \<Rightarrow>
                    (case int_above 1 (map_of ex ''days'') of
                       Some n \<Rightarrow>
                         Inr (Some \<lparr>le_Date = None, le_Days = Some n,
                                    le_ExpiredObjectDeleteMarker = None\<rparr>)
                     | None \<Rightarrow>
                         Inr (Some \<lparr>le_Date = None, le_Days = None,
                                    le_ExpiredObjectDeleteMarker =
                                      ok_bool (map_of ex ''expired_object_delete_marker'')\<rparr>)))))"

definition lifecycleNoncurrentVersionExpiration ::
  "(string \<times> val) list \<Rightarrow> int option option" where
  "lifecycleNoncurrentVersionExpiration r =
     (case set_list r ''noncurrent_version_expiration'' of
        [] \<Rightarrow> Some None
      | x # xs \<Rightarrow> do { ex \<leftarrow> assert_map (Some x); Some (int_above 1 (map_of ex ''days'')) })"

definition lifecycleTransition :: "env \<Rightarrow> val \<Rightarrow> error + Transition" where
  "lifecycleTransition e v =
     (case assert_map (Some v) of
        None \<Rightarrow> Inl GoPanic
      | Some transition \<Rightarrow>
          (case nonempty_string (map_of transition ''date'') of
             Some val \<Rightarrow>
               (case lifecycleDate e val of
                  Inl err \<Rightarrow> Inl err
                | Inr t \<Rightarrow>
                    Inr \<lparr>tr_Date = Some t, tr_Days = None,
                         tr_StorageClass = nonempty_string (map_of transition ''storage_class'')\<rparr>)
           | None \<Rightarrow>
               Inr \<lparr>tr_Date = None, tr_Days = int_above 0 (map_of transition ''days''),
                    tr_StorageClass = nonempty_string (map_of transition ''storage_class'')\<rparr>))"

fun lifecycleTransitions :: "env \<Rightarrow> val list \<Rightarrow> error + Transition list" where
  "lifecycleTransitions e [] = Inr []"
| "lifecycleTransitions e (v # vs) =
     (case lifecycleTransition e v of
        Inl err \<Rightarrow> Inl err
      | Inr t \<Rightarrow>
          (case lifecycleTransitions e vs of Inl err \<Rightarrow> Inl err | Inr ts \<Rightarrow> Inr (t # ts)))"

fun lifecycleNoncurrentVersionTransitions ::
  "val list \<Rightarrow> NoncurrentVersionTransition list option" where
  "lifecycleNoncurrentVersionTransitions [] = Some []"
| "lifecycleNoncurrentVersionTransitions (v # vs) = do {
     transition \<leftarrow> assert_map (Some v);
     ts \<leftarrow> lifecycleNoncurrentVersionTransitions vs;
     Some (\<lparr>nt_NoncurrentDays = int_above 0 (map_of transition ''days''),
            nt_StorageClass = nonempty_string (map_of transition ''storage_class'')\<rparr> # ts) }"

text \<open>
  One pass of the loop over the lifecycle rules.  The identifier is generated before the
  expiration and the transitions are read, so a rule that fails later has still consumed one.
\<close>

definition lifecycleRule ::
  "env \<Rightarrow> val \<Rightarrow> 's world \<Rightarrow> (error + LifecycleRule) \<times> 's world" where
  "lifecycleRule e v w =
     (case assert_map (Some v) of
        None \<Rightarrow> (Inl GoPanic, w)
      | Some r \<Rightarrow>
          (case lifecycleRuleFilter e r of
             None \<Rightarrow> (Inl GoPanic, w)
           | Some ruleFilter \<Rightarrow>
               (case (case nonempty_string (map_of r ''id'') of
                        Some val \<Rightarrow> (val, w)
                      | None \<Rightarrow> PrefixedUniqueId e ''tf-s3-lifecycle-'' w) of
                  (rid, w1) \<Rightarrow>
                    (case lifecycleExpiration e r of
                       Inl err \<Rightarrow> (Inl err, w1)
                     | Inr expiration \<Rightarrow>
                         (case lifecycleNoncurrentVersionExpiration r of
                            None \<Rightarrow> (Inl GoPanic, w1)
                          | Some ncExpiration \<Rightarrow>
                              (case lifecycleTransitions e (set_list r ''transition'') of
                                 Inl err \<Rightarrow> (Inl err, w1)
                               | Inr transitions \<Rightarrow>
                                   (case lifecycleNoncurrentVersionTransitions
                                           (set_list r ''noncurrent_version_transition'') of
                                      None \<Rightarrow> (Inl GoPanic, w1)
                                    | Some ncTransitions \<Rightarrow>
                                        (Inr \<lparr>lr_Filter = ruleFilter,
                                              lr_ID = rid,
                                              lr_Status =
                                                (if ok_bool (map_of r ''enabled'') = Some True
                                                 then ''Enabled'' else ''Disabled''),
                                              lr_AbortIncompleteMultipartUpload =
                                                int_above 1
                                                  (map_of r ''abort_incomplete_multipart_upload_days''),
                                              lr_Expiration = expiration,
                                              lr_NoncurrentVersionExpiration = ncExpiration,
                                              lr_Transitions = transitions,
                                              lr_NoncurrentVersionTransitions = ncTransitions\<rparr>,
                                         w1))))))))"

fun lifecycleRules ::
  "env \<Rightarrow> val list \<Rightarrow> 's world \<Rightarrow> (error + LifecycleRule list) \<times> 's world" where
  "lifecycleRules e [] w = (Inr [], w)"
| "lifecycleRules e (v # vs) w =
     (case lifecycleRule e v w of
        (Inl err, w1) \<Rightarrow> (Inl err, w1)
      | (Inr r, w1) \<Rightarrow>
          (case lifecycleRules e vs w1 of
             (Inl err, w2) \<Rightarrow> (Inl err, w2)
           | (Inr rs, w2) \<Rightarrow> (Inr (r # rs), w2)))"

definition resourceAwsS3BucketLifecycleUpdate ::
  "env \<Rightarrow> 's s3conn \<Rightarrow> ResourceData \<Rightarrow> 's world \<Rightarrow> error option \<times> 's world" where
  "resourceAwsS3BucketLifecycleUpdate e conn d w =
     (case Get_list d ''lifecycle_rule'' of
        [] \<Rightarrow>
          wrap_error ''Error removing S3 lifecycle: %s''
            (s3_call conn (DeleteBucketLifecycle (Get_string d ''bucket'')) w)
      | v # vs \<Rightarrow>
          (case lifecycleRules e (v # vs) w of
             (Inl err, w1) \<Rightarrow> (Some err, w1)
           | (Inr rules, w1) \<Rightarrow>
               wrap_error ''Error putting S3 lifecycle: %s''
                 (retryOnAwsCode (deadline_1m e) ''NoSuchBucket''
                    (s3_call conn
                       (PutBucketLifecycleConfiguration (Get_string d ''bucket'') rules)) w1)))"

section \<open>The object lock synchronizer\<close>

definition expandS3ObjectLockConfiguration ::
  "val list \<Rightarrow> ObjectLockConfiguration option option" where
  "expandS3ObjectLockConfiguration vConf =
     (case vConf of
        [] \<Rightarrow> Some None
      | VNil # vs \<Rightarrow> Some None
      | v0 # vs \<Rightarrow> do {
          mConf \<leftarrow> assert_map (Some v0);
          rule \<leftarrow> (case first_of_list (map_of mConf ''rule'') of
                     None \<Rightarrow> Some None
                   | Some r0 \<Rightarrow> do {
                       mRule \<leftarrow> assert_map (Some r0);
                       (case first_of_list (map_of mRule ''default_retention'') of
                          None \<Rightarrow> Some None
                        | Some dr0 \<Rightarrow>
                            if dr0 = VNil then Some None
                            else do {
                              mDefaultRetention \<leftarrow> assert_map (Some dr0);
                              Some (Some
                                \<lparr>dr_Mode = nonempty_string (map_of mDefaultRetention ''mode''),
                                 dr_Days = int_above 1 (map_of mDefaultRetention ''days''),
                                 dr_Years = int_above 1 (map_of mDefaultRetention ''years'')\<rparr>) }) });
          Some (Some \<lparr>ObjectLockEnabled = nonempty_string (map_of mConf ''object_lock_enabled''),
                      ol_Rule = rule\<rparr>) })"

definition resourceAwsS3BucketObjectLockConfigurationUpdate ::
  "env \<Rightarrow> 's s3conn \<Rightarrow> ResourceData \<Rightarrow> 's world \<Rightarrow> error option \<times> 's world" where
  "resourceAwsS3BucketObjectLockConfigurationUpdate e conn d w =
     (case expandS3ObjectLockConfiguration (Get_list d ''object_lock_configuration'') of
        None \<Rightarrow> (Some GoPanic, w)
      | Some conf \<Rightarrow>
          wrap_error ''error putting S3 object lock configuration: %s''
            (retryOnAwsCode (deadline_1m e) ''NoSuchBucket''
               (s3_call conn (PutObjectLockConfiguration (Get_string d ''bucket'') conf)) w))"




text \<open>
  What the specification says of the encoding of the lifecycle rules \<open>vs\<close> as \<open>rules\<close>, one
  by one.  With a non-empty tag map the filter of a rule is the conjunction of the prefix and
  the tags, otherwise it is the bare prefix.  A non-empty identifier of the caller is kept;
  a rule without one gets a generated identifier, which starts with \<^verbatim>\<open>tf-s3-lifecycle-\<close> and
  is unique: the generated identifiers of the rules differ from one another and from every
  identifier generated before, that is at a counter value below \<open>n\<close>.
\<close>

definition encodes_filter :: "env \<Rightarrow> val \<Rightarrow> LifecycleRule \<Rightarrow> bool" where
  "encodes_filter e v rule =
     (case v of
        VMap r \<Rightarrow>
          (case (map_of r ''tags'', map_of r ''prefix'') of
             (Some (VMap tags), Some (VStr pre)) \<Rightarrow>
               lr_Filter rule =
                 (if tags \<noteq> []
                  then \<lparr>flt_And = Some (pre, tagsFromMapS3 e tags), flt_Prefix = None\<rparr>
                  else \<lparr>flt_And = None, flt_Prefix = Some pre\<rparr>)
           | _ \<Rightarrow> False)
      | _ \<Rightarrow> False)"

definition supplied_id :: "val \<Rightarrow> string option" where
  "supplied_id v = (case v of VMap r \<Rightarrow> nonempty_string (map_of r ''id'') | _ \<Rightarrow> None)"

definition encodes_id :: "val \<Rightarrow> LifecycleRule \<Rightarrow> bool" where
  "encodes_id v rule =
     (case supplied_id v of
        Some i \<Rightarrow> lr_ID rule = i
      | None \<Rightarrow> HasPrefix (lr_ID rule) ''tf-s3-lifecycle-'')"

definition generated_ids :: "val list \<Rightarrow> LifecycleRule list \<Rightarrow> string list" where
  "generated_ids vs rules =
     map (\<lambda>p. lr_ID (snd p)) (filter (\<lambda>p. supplied_id (fst p) = None) (zip vs rules))"

definition lifecycle_ids :: "env \<Rightarrow> nat \<Rightarrow> string list" where
  "lifecycle_ids e n = map (\<lambda>k. ''tf-s3-lifecycle-'' @ unique_suffix e k) [0..<n]"

definition encodes_rules :: "env \<Rightarrow> nat \<Rightarrow> val list \<Rightarrow> LifecycleRule list \<Rightarrow> bool" where
  "encodes_rules e n vs rules =
     (list_all2 (encodes_filter e) vs rules \<and>
      list_all2 encodes_id vs rules \<and>
      distinct (generated_ids vs rules) \<and>
      list_all (\<lambda>i. i \<notin> set (lifecycle_ids e n)) (generated_ids vs rules))"

section \<open>Create and the update pass\<close>

text \<open>
  The synchronizers of the update pass that are not modelled in detail, the tag helper
  \<^verbatim>\<open>setTagsS3\<close> and the closing read: each acts on the remote state in any way and returns any
  error.  None of them writes to the resource data before the pass ends.  The theorems about
  the pass hold for every choice of them.
\<close>

record 's synchronizers =
  setTagsS3 :: "ResourceData \<Rightarrow> 's \<Rightarrow> error option \<times> 's"
  PolicyUpdate :: "ResourceData \<Rightarrow> 's \<Rightarrow> error option \<times> 's"
  CorsUpdate :: "ResourceData \<Rightarrow> 's \<Rightarrow> error option \<times> 's"
  VersioningUpdate :: "ResourceData \<Rightarrow> 's \<Rightarrow> error option \<times> 's"
  LoggingUpdate :: "ResourceData \<Rightarrow> 's \<Rightarrow> error option \<times> 's"
  AccelerationUpdate :: "ResourceData \<Rightarrow> 's \<Rightarrow> error option \<times> 's"
  RequestPayerUpdate :: "ResourceData \<Rightarrow> 's \<Rightarrow> error option \<times> 's"
  ServerSideEncryptionConfigurationUpdate :: "ResourceData \<Rightarrow> 's \<Rightarrow> error option \<times> 's"
  Read :: "ResourceData \<Rightarrow> 's \<Rightarrow> error option \<times> 's"

definition on_remote ::
  "(ResourceData \<Rightarrow> 's \<Rightarrow> error option \<times> 's) \<Rightarrow> ResourceData \<Rightarrow> 's world \<Rightarrow>
     error option \<times> ResourceData \<times> 's world" where
  "on_remote f d w = (case f d (remote w) of (err, s') \<Rightarrow> (err, d, w\<lparr>remote := s'\<rparr>))"

definition keeps_data ::
  "(ResourceData \<Rightarrow> 's world \<Rightarrow> error option \<times> 's world) \<Rightarrow> ResourceData \<Rightarrow> 's world \<Rightarrow>
     error option \<times> ResourceData \<times> 's world" where
  "keeps_data f d w = (case f d w of (err, w') \<Rightarrow> (err, d, w'))"

text \<open>
  The body of the update pass is a sequence of \<^verbatim>\<open>if guard { if err := sync(...); err != nil
  { return err } }\<close>.  A step is its guard, the name under which the run logs that the
  synchronizer was entered, and the synchronizer.
\<close>

type_synonym 's step =
  "(ResourceData \<Rightarrow> bool) \<times> string \<times>
   (ResourceData \<Rightarrow> 's world \<Rightarrow> error option \<times> ResourceData \<times> 's world)"

fun run_steps :: "'s step list \<Rightarrow> ResourceData \<Rightarrow> 's world \<Rightarrow>
    error option \<times> ResourceData \<times> 's world" where
  "run_steps [] d w = (None, d, w)"
| "run_steps ((guard, name, f) # rest) d w =
     (if guard d then
        (case f d (w\<lparr>synclog := synclog w @ [name]\<rparr>) of
           (Some err, d', w') \<Rightarrow> (Some err, d', w')
         | (None, d', w') \<Rightarrow> run_steps rest d' w')
      else run_steps rest d w)"

definition steps_before_acl :: "env \<Rightarrow> 's s3conn \<Rightarrow> 's synchronizers \<Rightarrow> 's step list" where
  "steps_before_acl e conn other =
     [(\<lambda>d. HasChange d ''policy'', ''policy'', on_remote (PolicyUpdate other)),
      (\<lambda>d. HasChange d ''cors_rule'', ''cors_rule'', on_remote (CorsUpdate other)),
      (\<lambda>d. HasChange d ''website'', ''website'', resourceAwsS3BucketWebsiteUpdate e conn),
      (\<lambda>d. HasChange d ''versioning'', ''versioning'', on_remote (VersioningUpdate other))]"

definition acl_step :: "env \<Rightarrow> 's s3conn \<Rightarrow> 's step" where
  "acl_step e conn =
     (\<lambda>d. HasChange d ''acl'' \<and> \<not> rd_IsNewResource d, ''acl'',
      keeps_data (resourceAwsS3BucketAclUpdate e conn))"

definition steps_after_acl :: "env \<Rightarrow> 's s3conn \<Rightarrow> 's synchronizers \<Rightarrow> 's step list" where
  "steps_after_acl e conn other =
     [(\<lambda>d. HasChange d ''logging'', ''logging'', on_remote (LoggingUpdate other)),
      (\<lambda>d. HasChange d ''lifecycle_rule'', ''lifecycle_rule'',
       keeps_data (resourceAwsS3BucketLifecycleUpdate e conn)),
      (\<lambda>d. HasChange d ''acceleration_status'', ''acceleration_status'',
       on_remote (AccelerationUpdate other)),
      (\<lambda>d. HasChange d ''request_payer'', ''request_payer'', on_remote (RequestPayerUpdate other)),
      (\<lambda>d. HasChange d ''replication_configuration'', ''replication_configuration'',
       keeps_data (resourceAwsS3BucketReplicationConfigurationUpdate e conn)),
      (\<lambda>d. HasChange d ''server_side_encryption_configuration'',
       ''server_side_encryption_configuration'',
       on_remote (ServerSideEncryptionConfigurationUpdate other)),
      (\<lambda>d. HasChange d ''object_lock_configuration'', ''object_lock_configuration'',
       keeps_data (resourceAwsS3BucketObjectLockConfigurationUpdate e conn))]"

definition resourceAwsS3BucketUpdate ::
  "env \<Rightarrow> 's s3conn \<Rightarrow> 's synchronizers \<Rightarrow> ResourceData \<Rightarrow> 's world \<Rightarrow>
     error option \<times> ResourceData \<times> 's world" where
  "resourceAwsS3BucketUpdate e conn other d w =
     (case on_remote (setTagsS3 other) d w of
        (Some err, d1, w1) \<Rightarrow> (Some (Errorf ''%q: %s'' (Some err)), d1, w1)
      | (None, d1, w1) \<Rightarrow>
          (case run_steps (steps_before_acl e conn other @ acl_step e conn #
                           steps_after_acl e conn other) d1 w1 of
             (Some err, d2, w2) \<Rightarrow> (Some err, d2, w2)
           | (None, d2, w2) \<Rightarrow> on_remote (Read other) d2 w2))"

text \<open>
  \<^verbatim>\<open>resourceAwsS3BucketCreate\<close>.  The SDK marks the resource data as new before it calls the
  function, which leaves the mark alone and ends in the update pass.
\<close>

definition createBucketName :: "env \<Rightarrow> ResourceData \<Rightarrow> 's world \<Rightarrow> string \<times> 's world" where
  "createBucketName e d w =
     (if Get_string d ''bucket'' \<noteq> [] then (Get_string d ''bucket'', w)
      else if Get_string d ''bucket_prefix'' \<noteq> []
      then PrefixedUniqueId e (Get_string d ''bucket_prefix'') w
      else UniqueId e w)"

definition createBucketInput ::
  "string \<Rightarrow> string \<Rightarrow> string \<Rightarrow> ObjectLockConfiguration option \<Rightarrow> CreateBucketInput" where
  "createBucketInput bucket acl awsRegion objectLockConfiguration =
     \<lparr>cb_Bucket = bucket,
      cb_ACL = acl,
      cb_LocationConstraint = (if awsRegion \<noteq> ''us-east-1'' then Some awsRegion else None),
      cb_ObjectLockEnabledForBucket =
        (case objectLockConfiguration of
           Some conf \<Rightarrow> if ObjectLockEnabled conf = Some ''Enabled'' then Some True else None
         | None \<Rightarrow> None)\<rparr>"

definition resourceAwsS3BucketCreate ::
  "env \<Rightarrow> 's s3conn \<Rightarrow> 's synchronizers \<Rightarrow> ResourceData \<Rightarrow> 's world \<Rightarrow>
     error option \<times> ResourceData \<times> 's world" where
  "resourceAwsS3BucketCreate e conn other d w =
     (case createBucketName e d w of
        (bucket, w1) \<Rightarrow>
          let d1 = Set_attr d ''bucket'' (VStr bucket);
              acl = Get_string d1 ''acl'';
              awsRegion = (if Get_string d1 ''region'' \<noteq> [] then Get_string d1 ''region''
                           else client_region e)
          in (case validateS3BucketName bucket awsRegion of
               Some err \<Rightarrow> (Some (Errorf ''Error validating S3 bucket name: %s'' (Some err)), d1, w1)
             | None \<Rightarrow>
                 (case expandS3ObjectLockConfiguration (Get_list d1 ''object_lock_configuration'') of
                    None \<Rightarrow> (Some GoPanic, d1, w1)
                  | Some objectLockConfiguration \<Rightarrow>
                      (case retried (deadline_5m e)
                              (\<lambda>err. isAWSErr (Some err) ''OperationAborted'' [])
                              (s3_call conn
                                 (CreateBucket
                                    (createBucketInput bucket acl awsRegion
                                       objectLockConfiguration))) w1 of
                         (Some err, w2) \<Rightarrow>
                           (Some (Errorf ''Error creating S3 bucket: %s'' (Some err)), d1, w2)
                       | (None, w2) \<Rightarrow>
                           resourceAwsS3BucketUpdate e conn other (d1\<lparr>rd_Id := bucket\<rparr>) w2))))"

text \<open>How often the update pass has entered the ACL synchronizer.\<close>

definition acl_runs :: "'s world \<Rightarrow> nat" where
  "acl_runs w = count_list (synclog w) ''acl''"

text \<open>
  For the proofs about the pass: a guard that reads only the change set and the new-resource
  mark, a synchronizer that leaves both and the log alone, and the names of the steps of a
  list whose guard holds.
\<close>

definition stable_guard :: "(ResourceData \<Rightarrow> bool) \<Rightarrow> bool" where
  "stable_guard g =
     (\<forall>d d'. rd_changed d' = rd_changed d \<and> rd_IsNewResource d' = rd_IsNewResource d \<longrightarrow>
        g d' = g d)"

definition quiet ::
  "(ResourceData \<Rightarrow> 's world \<Rightarrow> error option \<times> ResourceData \<times> 's world) \<Rightarrow> bool" where
  "quiet f =
     (\<forall>d w err d' w'. f d w = (err, d', w') \<longrightarrow>
        synclog w' = synclog w \<and> rd_changed d' = rd_changed d \<and>
        rd_IsNewResource d' = rd_IsNewResource d)"

definition entered :: "'s step list \<Rightarrow> ResourceData \<Rightarrow> string list" where
  "entered steps d = map (\<lambda>s. fst (snd s)) (filter (\<lambda>s. fst s d) steps)"

text \<open>A bucket creation among the calls, and a synchronizer that only appends calls other than
  bucket creations to the trace.\<close>

fun is_create :: "call \<Rightarrow> bool" where
  "is_create (CreateBucket req) = True"
| "is_create c = False"


section \<open>A concrete environment and a concrete remote\<close>

text \<open>
  Used to run the model on concrete inputs: an environment whose \<^verbatim>\<open>url.Parse\<close> knows one
  absolute URL and reads every other string as a bare path, whose JSON and time parsers
  refuse their input, and a remote that accepts every call.
\<close>

definition example_env :: env where
  "example_env =
     \<lparr>deadline_1m = Suc 0,
      deadline_5m = Suc (Suc 0),
      url_Parse = (\<lambda>s. if s = ''https://example.com/path?x=1''
                     then Inr \<lparr>Scheme = ''https'', Host = ''example.com'', Path = ''/path'',
                               RawQuery = ''x=1''\<rparr>
                     else Inr \<lparr>Scheme = [], Host = [], Path = s, RawQuery = []\<rparr>),
      json_Unmarshal = (\<lambda>s. Inl (OtherError ''invalid character'')),
      time_Parse = (\<lambda>s. Inl (OtherError ''parsing time'')),
      tagsFromMapS3 = map (\<lambda>kv. Tag (fst kv) (case snd kv of VStr s \<Rightarrow> s | _ \<Rightarrow> [])),
      unique_suffix = show_nat,
      client_region = ''us-east-1''\<rparr>"

definition accepting_s3 :: "unit s3conn" where
  "accepting_s3 =
     \<lparr>respond = (\<lambda>c s. (None, s)),
      list_versions = (\<lambda>b s. (Inr \<lparr>DeleteMarkers = [], Versions = []\<rparr>, s))\<rparr>"

definition fresh_world :: "unit world" where
  "fresh_world = \<lparr>remote = (), trace = [], synclog = [], idgen = 0\<rparr>"

definition bucket_data :: "(string \<times> val) list \<Rightarrow> ResourceData" where
  "bucket_data attrs =
     \<lparr>rd_Id = ''b'', rd_IsNewResource = False, rd_changed = [],
      rd_attrs = (''bucket'', VStr ''b'') # attrs\<rparr>"

text \<open>A bucket with one replication rule and a given versioning facet.\<close>

definition replicated_bucket :: "val list \<Rightarrow> ResourceData" where
  "replicated_bucket versioning =
     bucket_data
       [(''versioning'', VList versioning),
        (''replication_configuration'',
         VList [VMap [(''role'', VStr ''arn:aws:iam::123456789012:role/r''),
                      (''rules'', VSet [VMap [(''status'', VStr ''Enabled''),
                                              (''prefix'', VStr ''logs/''),
                                              (''destination'',
                                               VSet [VMap [(''bucket'', VStr ''arn:aws:s3:::dst'')]])]])]])]"

text \<open>A bucket with three lifecycle rules: one with an identifier, a prefix and a tag, two
  with a prefix only.\<close>

definition lifecycle_example :: "val list" where
  "lifecycle_example =
     [VMap [(''id'', VStr ''keep''), (''prefix'', VStr ''logs/''),
            (''tags'', VMap [(''team'', VStr ''ops'')]), (''enabled'', VBool True)],
      VMap [(''id'', VStr []), (''prefix'', VStr ''tmp/''), (''tags'', VMap []),
            (''enabled'', VBool False)],
      VMap [(''prefix'', VStr ''old/''), (''tags'', VMap []), (''enabled'', VBool True)]]"

text \<open>Unmodelled synchronizers that all succeed, the same with a tag helper that fails, and a
  bucket whose only change is its ACL.\<close>

definition succeeding :: "unit synchronizers" where
  "succeeding =
     \<lparr>setTagsS3 = (\<lambda>d s. (None, s)), PolicyUpdate = (\<lambda>d s. (None, s)),
      CorsUpdate = (\<lambda>d s. (None, s)), VersioningUpdate = (\<lambda>d s. (None, s)),
      LoggingUpdate = (\<lambda>d s. (None, s)), AccelerationUpdate = (\<lambda>d s. (None, s)),
      RequestPayerUpdate = (\<lambda>d s. (None, s)),
      ServerSideEncryptionConfigurationUpdate = (\<lambda>d s. (None, s)),
      Read = (\<lambda>d s. (None, s))\<rparr>"

definition failing_tags :: "unit synchronizers" where
  "failing_tags = succeeding\<lparr>setTagsS3 := (\<lambda>d s. (Some (AWSErr ''AccessDenied'' ''Access Denied''), s))\<rparr>"

definition acl_changed :: "bool \<Rightarrow> ResourceData" where
  "acl_changed new =
     (bucket_data [(''acl'', VStr ''public-read'')])
       \<lparr>rd_IsNewResource := new, rd_changed := [''acl'']\<rparr>"


section \<open>Proofs: the matcher decides the language\<close>

lemma nullable_lang: "nullable r \<longleftrightarrow> [] \<in> lang r"
  by (induction r) (auto simp: conc_def intro: star.star_nil)

lemma star_cons_split:
  assumes "w \<in> star A" and "w = c # x"
  shows "\<exists>u v. x = u @ v \<and> c # u \<in> A \<and> v \<in> star A"
  using assms
proof (induction arbitrary: x rule: star.induct)
  case star_nil
  then show ?case by simp
next
  case (star_app u v)
  show ?case
  proof (cases u)
    case Nil
    with star_app show ?thesis by simp
  next
    case (Cons d u')
    with star_app.prems have "d = c" and "x = u' @ v" by simp_all
    with Cons star_app.hyps show ?thesis by blast
  qed
qed

lemma star_cons_iff:
  "c # x \<in> star A \<longleftrightarrow> (\<exists>u v. x = u @ v \<and> c # u \<in> A \<and> v \<in> star A)"
proof
  assume "c # x \<in> star A"
  then show "\<exists>u v. x = u @ v \<and> c # u \<in> A \<and> v \<in> star A"
    using star_cons_split by blast
next
  assume "\<exists>u v. x = u @ v \<and> c # u \<in> A \<and> v \<in> star A"
  then obtain u v where "x = u @ v" "c # u \<in> A" "v \<in> star A" by blast
  then have "(c # u) @ v \<in> star A" by (intro star.star_app)
  with \<open>x = u @ v\<close> show "c # x \<in> star A" by simp
qed

lemma conc_cons_iff:
  "c # x \<in> conc A B \<longleftrightarrow>
     (\<exists>u v. x = u @ v \<and> c # u \<in> A \<and> v \<in> B) \<or> ([] \<in> A \<and> c # x \<in> B)"
  unfolding conc_def
  by (auto simp: Cons_eq_append_conv) 

lemma lang_deriv: "x \<in> lang (deriv c r) \<longleftrightarrow> c # x \<in> lang r"
proof (induction r arbitrary: x)
  case (Seq r s)
  then show ?case
    by (auto simp: conc_cons_iff nullable_lang) (auto simp: conc_def)
next
  case (Star r)
  then show ?case
    by (auto simp: star_cons_iff) (auto simp: conc_def)
qed auto

lemma MatchString_lang: "MatchString r w \<longleftrightarrow> w \<in> lang r"
  by (induction w arbitrary: r) (simp_all add: nullable_lang lang_deriv)

lemma star_class: "star {[c] | c. P c} = {w. list_all P w}"
proof (intro set_eqI iffI)
  fix w assume "w \<in> star {[c] | c. P c}"
  then show "w \<in> {w. list_all P w}"
    by (induction rule: star.induct) auto
next
  fix w assume "w \<in> {w. list_all P w}"
  then have "list_all P w" by simp
  then show "w \<in> star {[c] | c. P c}"
  proof (induction w)
    case Nil
    then show ?case by (simp add: star.star_nil)
  next
    case (Cons a w)
    then have "[a] \<in> {[c] | c. P c}" and "w \<in> star {[c] | c. P c}" by simp_all
    then have "[a] @ w \<in> star {[c] | c. P c}" by (rule star.star_app)
    then show ?case by simp
  qed
qed

lemma conc_class_iff:
  "w \<in> conc {[c] | c. P c} B \<longleftrightarrow> (\<exists>c v. w = c # v \<and> P c \<and> v \<in> B)"
proof
  assume "w \<in> conc {[c] | c. P c} B"
  then show "\<exists>c v. w = c # v \<and> P c \<and> v \<in> B"
    unfolding conc_def by auto
next
  assume "\<exists>c v. w = c # v \<and> P c \<and> v \<in> B"
  then obtain c v where w: "w = [c] @ v" and "P c" "v \<in> B" by auto
  then have "[c] \<in> {[c] | c. P c}" by simp
  with w \<open>v \<in> B\<close> show "w \<in> conc {[c] | c. P c} B"
    unfolding conc_def by blast
qed

lemma lang_Opt: "lang (Opt r) = insert [] (lang r)"
  by (auto simp: Opt_def)

lemma lang_Plus_Class:
  "w \<in> lang (Plus (Class rs)) \<longleftrightarrow> w \<noteq> [] \<and> list_all (in_class rs) w"
  unfolding Plus_def by (cases w) (simp_all add: conc_class_iff star_class)

lemma lang_Rep13_Class:
  "w \<in> lang (Rep13 (Class rs)) \<longleftrightarrow>
     1 \<le> length w \<and> length w \<le> 3 \<and> list_all (in_class rs) w"
proof (cases w)
  case Nil
  then show ?thesis by (simp add: Rep13_def conc_class_iff)
next
  case w1: (Cons a w1)
  show ?thesis
  proof (cases w1)
    case Nil
    with w1 show ?thesis by (simp add: Rep13_def conc_class_iff lang_Opt)
  next
    case w2: (Cons b w2)
    show ?thesis
    proof (cases w2)
      case Nil
      with w1 w2 show ?thesis by (simp add: Rep13_def conc_class_iff lang_Opt)
    next
      case w3: (Cons c w3)
      with w1 w2 show ?thesis
        by (cases w3) (simp_all add: Rep13_def conc_class_iff lang_Opt)
    qed
  qed
qed

lemma in_class_digit: "in_class class_digit = is_digit"
  by (rule ext) (simp add: in_class_def class_digit_def is_digit_def)

lemma lang_digits13: "w \<in> lang (Rep13 (Class class_digit)) \<longleftrightarrow> digits13 w"
  by (simp add: lang_Rep13_Class digits13_def in_class_digit)

lemma lang_Lit: "lang (Lit c) = {[c]}"
  by (auto simp: Lit_def in_class_def)

lemma lang_octet_dot:
  "w \<in> lang (Seq (Rep13 (Class class_digit)) (Lit (CHR ''.''))) \<longleftrightarrow>
     (\<exists>a. w = a @ ''.'' \<and> digits13 a)"
  by (auto simp: conc_def lang_Lit lang_digits13)

lemma lang_re_ip:
  "w \<in> lang re_ip \<longleftrightarrow>
     (\<exists>a b c d. w = a @ ''.'' @ b @ ''.'' @ c @ ''.'' @ d \<and>
        digits13 a \<and> digits13 b \<and> digits13 c \<and> digits13 d)"
proof -
  let ?O = "lang (Seq (Rep13 (Class class_digit)) (Lit (CHR ''.'')))"
  let ?D = "lang (Rep13 (Class class_digit))"
  have "w \<in> lang re_ip \<longleftrightarrow> w \<in> conc (conc ?O (conc ?O ?O)) ?D"
    by (simp add: re_ip_def Rep3_def)
  also have "\<dots> \<longleftrightarrow> (\<exists>x y z d. w = (x @ y @ z) @ d \<and> x \<in> ?O \<and> y \<in> ?O \<and> z \<in> ?O \<and> d \<in> ?D)"
    unfolding conc_def by blast
  also have "\<dots> \<longleftrightarrow> (\<exists>a b c d. w = a @ ''.'' @ b @ ''.'' @ c @ ''.'' @ d \<and>
        digits13 a \<and> digits13 b \<and> digits13 c \<and> digits13 d)"
    unfolding lang_octet_dot lang_digits13
  proof
    assume "\<exists>x y z d. w = (x @ y @ z) @ d \<and> (\<exists>a. x = a @ ''.'' \<and> digits13 a) \<and>
        (\<exists>a. y = a @ ''.'' \<and> digits13 a) \<and> (\<exists>a. z = a @ ''.'' \<and> digits13 a) \<and> digits13 d"
    then obtain a b c d where "w = ((a @ ''.'') @ (b @ ''.'') @ (c @ ''.'')) @ d"
      "digits13 a" "digits13 b" "digits13 c" "digits13 d" by blast
    then have "w = a @ ''.'' @ b @ ''.'' @ c @ ''.'' @ d \<and>
        digits13 a \<and> digits13 b \<and> digits13 c \<and> digits13 d" by simp
    then show "\<exists>a b c d. w = a @ ''.'' @ b @ ''.'' @ c @ ''.'' @ d \<and>
        digits13 a \<and> digits13 b \<and> digits13 c \<and> digits13 d" by blast
  next
    assume "\<exists>a b c d. w = a @ ''.'' @ b @ ''.'' @ c @ ''.'' @ d \<and>
        digits13 a \<and> digits13 b \<and> digits13 c \<and> digits13 d"
    then obtain a b c d where "w = a @ ''.'' @ b @ ''.'' @ c @ ''.'' @ d"
      and dg: "digits13 a" "digits13 b" "digits13 c" "digits13 d" by blast
    then have "w = ((a @ ''.'') @ (b @ ''.'') @ (c @ ''.'')) @ d" by simp
    with dg show "\<exists>x y z d. w = (x @ y @ z) @ d \<and> (\<exists>a. x = a @ ''.'' \<and> digits13 a) \<and>
        (\<exists>a. y = a @ ''.'' \<and> digits13 a) \<and> (\<exists>a. z = a @ ''.'' \<and> digits13 a) \<and> digits13 d"
      by blast
  qed
  finally show ?thesis .
qed

lemma split_on_nonempty: "split_on c w \<noteq> []"
  by (induction w) (auto split: list.splits)

lemma split_on_no_sep: "c \<notin> set a \<Longrightarrow> split_on c a = [a]"
  by (induction a) auto

lemma split_on_append: "c \<notin> set a \<Longrightarrow> split_on c (a @ c # rest) = a # split_on c rest"
  by (induction a) auto

lemma split_on_Cons:
  "split_on c w = p # ps \<Longrightarrow>
     c \<notin> set p \<and> (if ps = [] then w = p else \<exists>rest. w = p @ c # rest \<and> split_on c rest = ps)"
proof (induction w arbitrary: p ps)
  case Nil
  then show ?case by simp
next
  case (Cons x w)
  show ?case
  proof (cases "x = c")
    case True
    with Cons.prems have "p = []" "ps = split_on c w" by simp_all
    with True show ?thesis by (simp add: split_on_nonempty)
  next
    case False
    obtain q qs where q: "split_on c w = q # qs"
      using split_on_nonempty by (cases "split_on c w") auto
    with False Cons.prems have p: "p = x # q" "ps = qs" by simp_all
    from Cons.IH[OF q] p False show ?thesis by auto
  qed
qed

lemma digits13_no_dot: "digits13 a \<Longrightarrow> CHR ''.'' \<notin> set a"
  by (auto simp: digits13_def is_digit_def list_all_iff)

lemma ipv4_shaped_iff:
  "ipv4_shaped w \<longleftrightarrow>
     (\<exists>a b c d. w = a @ ''.'' @ b @ ''.'' @ c @ ''.'' @ d \<and>
        digits13 a \<and> digits13 b \<and> digits13 c \<and> digits13 d)"
proof
  assume "ipv4_shaped w"
  then obtain a b c d where ps: "split_on (CHR ''.'') w = [a, b, c, d]"
    and dg: "digits13 a" "digits13 b" "digits13 c" "digits13 d"
    unfolding ipv4_shaped_def Let_def
    by (auto simp: length_Suc_conv numeral_eq_Suc)
  from split_on_Cons[OF ps] obtain r1 where r1: "w = a @ CHR ''.'' # r1" "split_on (CHR ''.'') r1 = [b, c, d]"
    by auto
  from split_on_Cons[OF r1(2)] obtain r2 where r2: "r1 = b @ CHR ''.'' # r2" "split_on (CHR ''.'') r2 = [c, d]"
    by auto
  from split_on_Cons[OF r2(2)] obtain r3 where r3: "r2 = c @ CHR ''.'' # r3" "split_on (CHR ''.'') r3 = [d]"
    by auto
  from split_on_Cons[OF r3(2)] have "r3 = d" by simp
  with r1 r2 r3 have "w = a @ ''.'' @ b @ ''.'' @ c @ ''.'' @ d" by simp
  with dg show "\<exists>a b c d. w = a @ ''.'' @ b @ ''.'' @ c @ ''.'' @ d \<and>
        digits13 a \<and> digits13 b \<and> digits13 c \<and> digits13 d" by blast
next
  assume "\<exists>a b c d. w = a @ ''.'' @ b @ ''.'' @ c @ ''.'' @ d \<and>
        digits13 a \<and> digits13 b \<and> digits13 c \<and> digits13 d"
  then obtain a b c d where w: "w = a @ ''.'' @ b @ ''.'' @ c @ ''.'' @ d"
    and dg: "digits13 a" "digits13 b" "digits13 c" "digits13 d" by blast
  have "split_on (CHR ''.'') w = [a, b, c, d]"
    using dg by (simp add: w split_on_append split_on_no_sep digits13_no_dot)
  with dg show "ipv4_shaped w" by (simp add: ipv4_shaped_def)
qed

lemma MatchString_re_ip: "MatchString re_ip w \<longleftrightarrow> ipv4_shaped w"
  by (simp add: MatchString_lang lang_re_ip ipv4_shaped_iff)

lemma HasPrefix_prefix: "HasPrefix s p \<longleftrightarrow> prefix p s"
  unfolding HasPrefix_def
  by (metis append_eq_conv_conj prefix_def)

lemma HasSuffix_suffix: "HasSuffix s p \<longleftrightarrow> suffix p s"
proof
  assume "HasSuffix s p"
  then have "s = take (length s - length p) s @ p"
    unfolding HasSuffix_def by (metis append_take_drop_id)
  then show "suffix p s" unfolding suffix_def by blast
next
  assume "suffix p s"
  then obtain q where "s = q @ p" unfolding suffix_def by blast
  then show "HasSuffix s p" by (simp add: HasSuffix_def)
qed

lemma Contains_sublist: "Contains s sub \<longleftrightarrow> sublist sub s"
  by (induction s) (simp_all add: HasPrefix_prefix sublist_Cons_right)

lemma in_class_dns: "in_class class_dns = dns_char"
  by (rule ext) (auto simp: in_class_def class_dns_def dns_char_def is_digit_def is_lower_def)

lemma in_class_home: "in_class class_home = home_char"
  by (rule ext) (auto simp: in_class_def class_home_def home_char_def is_digit_def is_lower_def is_upper_def)

lemma MatchString_re_dns: "MatchString re_dns w \<longleftrightarrow> w \<noteq> [] \<and> list_all dns_char w"
  by (simp add: MatchString_lang re_dns_def lang_Plus_Class in_class_dns)

lemma MatchString_re_home: "MatchString re_home w \<longleftrightarrow> w \<noteq> [] \<and> list_all home_char w"
  by (simp add: MatchString_lang re_home_def lang_Plus_Class in_class_home)

lemma validate_outside:
  "region \<noteq> ''us-east-1'' \<Longrightarrow>
   validateS3BucketName val region = None \<longleftrightarrow>
     3 \<le> length val \<and> length val \<le> 63 \<and> list_all dns_char val \<and> \<not> ipv4_shaped val \<and>
     \<not> prefix ''.'' val \<and> \<not> suffix ''.'' val \<and> \<not> sublist ''..'' val"
  unfolding validateS3BucketName_def MatchString_re_dns MatchString_re_ip
    HasPrefix_prefix HasSuffix_suffix Contains_sublist
  by (cases val) auto

lemma validate_home:
  "validateS3BucketName val ''us-east-1'' = None \<longleftrightarrow>
     1 \<le> length val \<and> length val \<le> 255 \<and> list_all home_char val"
  unfolding validateS3BucketName_def MatchString_re_home
  by (cases val) auto

section \<open>Proofs: bucket name validation\<close>

lemma createBucketName_nonempty: "fst (createBucketName e d w) \<noteq> []"
  by (simp add: createBucketName_def UniqueId_def PrefixedUniqueId_def)

text \<open>
  C3: the validator is called once, by create, on the name create has computed, and that
  name is never empty: it is the configured name when that is non-empty, else the non-empty
  configured prefix or \<^verbatim>\<open>terraform-\<close> followed by a generated suffix.  For every non-empty
  name and every region: outside the home region \<^verbatim>\<open>us-east-1\<close> the name is accepted iff it has
  3 to 63 characters, all of them lowercase alphanumerics, hyphens or periods, is not shaped
  like an IPv4 address, neither starts nor ends with a period and has no two periods in a row;
  inside the home region it is accepted iff it has at most 255 characters, all of them
  alphanumerics of either case, hyphens, periods or underscores.  In particular \<^verbatim>\<open>ab\<close> and
  \<^verbatim>\<open>192.168.1.1\<close> are refused outside the home region, and every 200-character name with an
  underscore made of home-region characters is accepted inside the home region and refused
  outside it.
\<close>

theorem validateS3BucketName_accepts_iff:
  "fst (createBucketName e d w) \<noteq> [] \<and>
   (val \<noteq> [] \<longrightarrow>
      (region \<noteq> ''us-east-1'' \<longrightarrow>
         (validateS3BucketName val region = None \<longleftrightarrow>
            3 \<le> length val \<and> length val \<le> 63 \<and> list_all dns_char val \<and> \<not> ipv4_shaped val \<and>
            \<not> prefix ''.'' val \<and> \<not> suffix ''.'' val \<and> \<not> sublist ''..'' val)) \<and>
      (validateS3BucketName val ''us-east-1'' = None \<longleftrightarrow>
         length val \<le> 255 \<and> list_all home_char val)) \<and>
   (region \<noteq> ''us-east-1'' \<longrightarrow>
      validateS3BucketName ''ab'' region \<noteq> None \<and>
      validateS3BucketName ''192.168.1.1'' region \<noteq> None) \<and>
   (length nm = 200 \<and> CHR ''_'' \<in> set nm \<and> list_all home_char nm \<longrightarrow>
      validateS3BucketName nm ''us-east-1'' = None \<and>
      (region \<noteq> ''us-east-1'' \<longrightarrow> validateS3BucketName nm region \<noteq> None))"
proof (intro conjI impI)
  show "fst (createBucketName e d w) \<noteq> []"
    by (rule createBucketName_nonempty)
next
  assume r: "region \<noteq> ''us-east-1''"
  show "validateS3BucketName val region = None \<longleftrightarrow>
         3 \<le> length val \<and> length val \<le> 63 \<and> list_all dns_char val \<and> \<not> ipv4_shaped val \<and>
         \<not> prefix ''.'' val \<and> \<not> suffix ''.'' val \<and> \<not> sublist ''..'' val"
    by (rule validate_outside[OF r])
  show "validateS3BucketName ''ab'' region \<noteq> None"
    using r by (simp add: validate_outside)
  have "ipv4_shaped ''192.168.1.1''"
    by (simp add: ipv4_shaped_def digits13_def is_digit_def)
  then show "validateS3BucketName ''192.168.1.1'' region \<noteq> None"
    using r by (simp add: validate_outside)
next
  assume "val \<noteq> []"
  then have "1 \<le> length val"
    by (cases val) simp_all
  then show "validateS3BucketName val ''us-east-1'' = None \<longleftrightarrow>
      length val \<le> 255 \<and> list_all home_char val"
    by (simp add: validate_home)
next
  assume nm: "length nm = 200 \<and> CHR ''_'' \<in> set nm \<and> list_all home_char nm"
  then show "validateS3BucketName nm ''us-east-1'' = None"
    by (simp add: validate_home)
next
  assume nm: "length nm = 200 \<and> CHR ''_'' \<in> set nm \<and> list_all home_char nm"
    and r: "region \<noteq> ''us-east-1''"
  then show "validateS3BucketName nm region \<noteq> None"
    by (simp add: validate_outside)
qed

theorem validateS3BucketName_accepts_iff_witness:
  "''eu-west-1'' \<noteq> ''us-east-1'' \<and>
   fst (createBucketName example_env (bucket_data []) fresh_world) = ''b'' \<and>
   validateS3BucketName ''b'' ''us-east-1'' = None \<and>
   validateS3BucketName ''my-bucket.logs'' ''eu-west-1'' = None \<and>
   validateS3BucketName ''My_Bucket'' ''us-east-1'' = None \<and>
   validateS3BucketName ''ab'' ''eu-west-1'' \<noteq> None \<and>
   validateS3BucketName ''192.168.1.1'' ''eu-west-1'' \<noteq> None \<and>
   length (replicate 200 (CHR ''_'')) = 200 \<and>
   validateS3BucketName (replicate 200 (CHR ''_'')) ''us-east-1'' = None \<and>
   validateS3BucketName (replicate 200 (CHR ''_'')) ''eu-west-1'' \<noteq> None"
proof -
  have ne: "''eu-west-1'' \<noteq> ''us-east-1''" by simp
  have n: "fst (createBucketName example_env (bucket_data []) fresh_world) = ''b''"
    by (simp add: createBucketName_def bucket_data_def Get_string_def)
  have a: "3 \<le> length ''my-bucket.logs'' \<and> length ''my-bucket.logs'' \<le> 63 \<and>
      list_all dns_char ''my-bucket.logs'' \<and> \<not> ipv4_shaped ''my-bucket.logs'' \<and>
      \<not> prefix ''.'' ''my-bucket.logs'' \<and> \<not> suffix ''.'' ''my-bucket.logs'' \<and>
      \<not> sublist ''..'' ''my-bucket.logs''"
    unfolding HasPrefix_prefix[symmetric] HasSuffix_suffix[symmetric] Contains_sublist[symmetric]
    by (simp add: dns_char_def is_digit_def is_lower_def ipv4_shaped_def digits13_def
        HasPrefix_def HasSuffix_def)
  have b: "length ''My_Bucket'' \<le> 255 \<and> list_all home_char ''My_Bucket''"
    by (simp add: home_char_def is_digit_def is_lower_def is_upper_def)
  have b0: "length ''b'' \<le> 255 \<and> list_all home_char ''b''"
    by (simp add: home_char_def is_digit_def is_lower_def is_upper_def)
  have c: "length (replicate 200 (CHR ''_'')) = 200 \<and> CHR ''_'' \<in> set (replicate 200 (CHR ''_'')) \<and>
      list_all home_char (replicate 200 (CHR ''_''))"
    by (simp add: home_char_def list_all_iff)
  have v1: "''my-bucket.logs'' \<noteq> []" and v2: "''My_Bucket'' \<noteq> []" and v0: "''b'' \<noteq> []"
    by simp_all
  note t0 = validateS3BucketName_accepts_iff
    [where e = example_env and d = "bucket_data []" and w = fresh_world
      and region = "''eu-west-1''" and val = "''b''" and nm = "replicate 200 (CHR ''_'')",
      THEN conjunct2]
  note t1 = validateS3BucketName_accepts_iff
    [where e = example_env and d = "bucket_data []" and w = fresh_world
      and region = "''eu-west-1''" and val = "''my-bucket.logs''"
      and nm = "replicate 200 (CHR ''_'')", THEN conjunct2]
  note t2 = validateS3BucketName_accepts_iff
    [where e = example_env and d = "bucket_data []" and w = fresh_world
      and region = "''eu-west-1''" and val = "''My_Bucket''"
      and nm = "replicate 200 (CHR ''_'')", THEN conjunct2]
  from t0 v0 b0 have "validateS3BucketName ''b'' ''us-east-1'' = None" by blast
  moreover from t1 ne v1 a have "validateS3BucketName ''my-bucket.logs'' ''eu-west-1'' = None"
    by blast
  moreover from t2 v2 b have "validateS3BucketName ''My_Bucket'' ''us-east-1'' = None" by blast
  moreover from t1 ne have "validateS3BucketName ''ab'' ''eu-west-1'' \<noteq> None"
    and "validateS3BucketName ''192.168.1.1'' ''eu-west-1'' \<noteq> None" by blast+
  moreover from t1 ne c have "validateS3BucketName (replicate 200 (CHR ''_'')) ''us-east-1'' = None"
    and "validateS3BucketName (replicate 200 (CHR ''_'')) ''eu-west-1'' \<noteq> None" by blast+
  ultimately show ?thesis using ne n c by blast
qed

section \<open>Proofs: set fingerprints\<close>

lemma veq_atom:
  assumes "veq x y"
  shows "(x = VNil \<longleftrightarrow> y = VNil)"
    and "(\<exists>s. x = VStr s) \<or> (\<exists>s. y = VStr s) \<Longrightarrow> x = y"
    and "(\<exists>s. x = VInt s) \<or> (\<exists>s. y = VInt s) \<Longrightarrow> x = y"
    and "(\<exists>s. x = VBool s) \<or> (\<exists>s. y = VBool s) \<Longrightarrow> x = y"
  using assms by (auto elim: veq.cases)

lemma veq_shape:
  assumes "veq x y"
  shows "(\<exists>m. x = VMap m) \<longleftrightarrow> (\<exists>m. y = VMap m)"
    and "(\<exists>m. x = VList m) \<longleftrightarrow> (\<exists>m. y = VList m)"
    and "(\<exists>m. x = VSet m) \<longleftrightarrow> (\<exists>m. y = VSet m)"
  using assms by (auto elim: veq.cases)

lemma veq_VMap_lookup:
  assumes "veq (VMap m1) (VMap m2)"
  shows "rel_option veq (map_of m1 k) (map_of m2 k)"
  using assms
proof (cases rule: veq.cases)
  case veq_refl
  then show ?thesis by (simp add: option.rel_refl veq.veq_refl)
qed auto

lemma veq_VSet_elems:
  assumes "veq (VSet xs) (VSet ys)"
  shows "list_all2 veq xs ys"
  using assms
proof (cases rule: veq.cases)
  case veq_refl
  then show ?thesis by (simp add: list_all2_refl veq.veq_refl)
qed auto

lemma veq_VList_elems:
  assumes "veq (VList xs) (VList ys)"
  shows "list_all2 veq xs ys"
  using assms
proof (cases rule: veq.cases)
  case veq_refl
  then show ?thesis by (simp add: list_all2_refl veq.veq_refl)
qed auto

lemma write_s_veq:
  assumes "rel_option veq (map_of m1 k) (map_of m2 k)"
  shows "write_s m1 k = write_s m2 k"
proof (cases "map_of m1 k")
  case None
  with assms show ?thesis by (cases "map_of m2 k") (simp_all add: write_s_def)
next
  case (Some x)
  with assms obtain y where y: "map_of m2 k = Some y" "veq x y"
    by (cases "map_of m2 k") simp_all
  from veq_atom(2)[OF y(2)] Some y(1) show ?thesis
    by (cases x; cases y) (auto simp: write_s_def)
qed

lemma write_d_veq:
  assumes "rel_option veq (map_of m1 k) (map_of m2 k)"
  shows "write_d m1 k = write_d m2 k"
proof (cases "map_of m1 k")
  case None
  with assms show ?thesis by (cases "map_of m2 k") (simp_all add: write_d_def)
next
  case (Some x)
  with assms obtain y where y: "map_of m2 k = Some y" "veq x y"
    by (cases "map_of m2 k") simp_all
  from veq_atom(3)[OF y(2)] Some y(1) show ?thesis
    by (cases x; cases y) (auto simp: write_d_def)
qed

lemma write_t_veq:
  assumes "rel_option veq (map_of m1 k) (map_of m2 k)"
  shows "write_t m1 k = write_t m2 k"
proof (cases "map_of m1 k")
  case None
  with assms show ?thesis by (cases "map_of m2 k") (simp_all add: write_t_def)
next
  case (Some x)
  with assms obtain y where y: "map_of m2 k = Some y" "veq x y"
    by (cases "map_of m2 k") simp_all
  from veq_atom(4)[OF y(2)] Some y(1) show ?thesis
    by (cases x; cases y) (auto simp: write_t_def)
qed

lemma first_of_set_veq:
  assumes r: "rel_option veq a b"
    and F: "\<And>x y. veq x y \<Longrightarrow> F x = F y"
  shows "(case a of Some (VSet (x # xs)) \<Rightarrow> F x | _ \<Rightarrow> d) =
         (case b of Some (VSet (x # xs)) \<Rightarrow> F x | _ \<Rightarrow> d)"
proof (cases a)
  case None
  with r show ?thesis by (cases b) simp_all
next
  case (Some x)
  with r obtain y where y: "b = Some y" "veq x y" by (cases b) simp_all
  show ?thesis
  proof (cases "\<exists>xs. x = VSet xs")
    case True
    then obtain xs where xs: "x = VSet xs" by blast
    with veq_shape(3)[OF y(2)] obtain ys where ys: "y = VSet ys" by blast
    from veq_VSet_elems y(2) xs ys have "list_all2 veq xs ys" by blast
    then show ?thesis
      using Some y(1) xs ys F by (cases xs; cases ys) auto
  next
    case False
    with veq_shape(3)[OF y(2)] have "\<not> (\<exists>ys. y = VSet ys)" by blast
    with False Some y(1) show ?thesis by (cases x; cases y) auto
  qed
qed

lemma first_of_list_veq:
  assumes r: "rel_option veq a b"
    and F: "\<And>x y. veq x y \<Longrightarrow> F x = F y"
  shows "(case a of Some (VList (x # xs)) \<Rightarrow> F x | _ \<Rightarrow> d) =
         (case b of Some (VList (x # xs)) \<Rightarrow> F x | _ \<Rightarrow> d)"
proof (cases a)
  case None
  with r show ?thesis by (cases b) simp_all
next
  case (Some x)
  with r obtain y where y: "b = Some y" "veq x y" by (cases b) simp_all
  show ?thesis
  proof (cases "\<exists>xs. x = VList xs")
    case True
    then obtain xs where xs: "x = VList xs" by blast
    with veq_shape(2)[OF y(2)] obtain ys where ys: "y = VList ys" by blast
    from veq_VList_elems y(2) xs ys have "list_all2 veq xs ys" by blast
    then show ?thesis
      using Some y(1) xs ys F by (cases xs; cases ys) auto
  next
    case False
    with veq_shape(2)[OF y(2)] have "\<not> (\<exists>ys. y = VList ys)" by blast
    with False Some y(1) show ?thesis by (cases x; cases y) auto
  qed
qed

lemma non_map_veq:
  assumes "veq x y" and "\<not> (\<exists>m. x = VMap m)"
  shows "\<not> (\<exists>m. y = VMap m) \<and> (x = VNil \<longleftrightarrow> y = VNil)"
  using veq_shape(1)[OF assms(1)] veq_atom(1)[OF assms(1)] assms(2) by blast

lemma expirationHash_veq:
  assumes "veq x y"
  shows "expirationHash hc x = expirationHash hc y"
proof (cases "\<exists>m. x = VMap m")
  case True
  then obtain m1 where m1: "x = VMap m1" by blast
  with veq_shape(1)[OF assms] obtain m2 where m2: "y = VMap m2" by blast
  note l = veq_VMap_lookup[OF assms[unfolded m1 m2]]
  show ?thesis
    unfolding expirationHash_def m1 m2 val.case
    by (simp only: write_s_veq[OF l] write_d_veq[OF l] write_t_veq[OF l])
next
  case False
  from non_map_veq[OF assms False] False show ?thesis
    unfolding expirationHash_def by (cases x; cases y) auto
qed

lemma transitionHash_veq:
  assumes "veq x y"
  shows "transitionHash hc x = transitionHash hc y"
proof (cases "\<exists>m. x = VMap m")
  case True
  then obtain m1 where m1: "x = VMap m1" by blast
  with veq_shape(1)[OF assms] obtain m2 where m2: "y = VMap m2" by blast
  note l = veq_VMap_lookup[OF assms[unfolded m1 m2]]
  show ?thesis
    unfolding transitionHash_def m1 m2 val.case
    by (simp only: write_s_veq[OF l] write_d_veq[OF l])
next
  case False
  from non_map_veq[OF assms False] False show ?thesis
    unfolding transitionHash_def by (cases x; cases y) auto
qed

lemma sourceSseKmsObjectsHash_veq:
  assumes "veq x y"
  shows "sourceSseKmsObjectsHash hc x = sourceSseKmsObjectsHash hc y"
proof (cases "\<exists>m. x = VMap m")
  case True
  then obtain m1 where m1: "x = VMap m1" by blast
  with veq_shape(1)[OF assms] obtain m2 where m2: "y = VMap m2" by blast
  note l = veq_VMap_lookup[OF assms[unfolded m1 m2]]
  show ?thesis
    unfolding sourceSseKmsObjectsHash_def m1 m2 val.case
    by (simp only: write_t_veq[OF l])
next
  case False
  from non_map_veq[OF assms False] False show ?thesis
    unfolding sourceSseKmsObjectsHash_def by (cases x; cases y) auto
qed

lemma accessControlTranslationHash_veq:
  assumes "veq x y"
  shows "accessControlTranslationHash hc x = accessControlTranslationHash hc y"
proof (cases "\<exists>m. x = VMap m")
  case True
  then obtain m1 where m1: "x = VMap m1" by blast
  with veq_shape(1)[OF assms] obtain m2 where m2: "y = VMap m2" by blast
  note l = veq_VMap_lookup[OF assms[unfolded m1 m2]]
  show ?thesis
    unfolding accessControlTranslationHash_def m1 m2 val.case
    by (simp only: write_s_veq[OF l])
next
  case False
  from non_map_veq[OF assms False] False show ?thesis
    unfolding accessControlTranslationHash_def by (cases x; cases y) auto
qed

lemma sourceSelectionCriteriaHash_veq:
  assumes "veq x y"
  shows "sourceSelectionCriteriaHash hc x = sourceSelectionCriteriaHash hc y"
proof (cases "\<exists>m. x = VMap m")
  case True
  then obtain m1 where m1: "x = VMap m1" by blast
  with veq_shape(1)[OF assms] obtain m2 where m2: "y = VMap m2" by blast
  note l = veq_VMap_lookup[OF assms[unfolded m1 m2]]
  have "(case map_of m1 ''sse_kms_encrypted_objects'' of
           Some (VSet (x # xs)) \<Rightarrow> write_hash (sourceSseKmsObjectsHash hc x) | _ \<Rightarrow> Some []) =
        (case map_of m2 ''sse_kms_encrypted_objects'' of
           Some (VSet (x # xs)) \<Rightarrow> write_hash (sourceSseKmsObjectsHash hc x) | _ \<Rightarrow> Some [])"
    by (rule first_of_set_veq[OF l]) (simp add: sourceSseKmsObjectsHash_veq)
  then show ?thesis
    unfolding sourceSelectionCriteriaHash_def m1 m2 val.case by simp
next
  case False
  from non_map_veq[OF assms False] False show ?thesis
    unfolding sourceSelectionCriteriaHash_def by (cases x; cases y) auto
qed

lemma guarded_veq:
  assumes "veq x y" and "G x = G y"
  shows "(if x \<noteq> VNil then G x else d) = (if y \<noteq> VNil then G y else d)"
  using veq_atom(1)[OF assms(1)] assms(2) by simp

lemma destinationHash_veq:
  assumes "veq x y"
  shows "destinationHash hc x = destinationHash hc y"
proof (cases "\<exists>m. x = VMap m")
  case True
  then obtain m1 where m1: "x = VMap m1" by blast
  with veq_shape(1)[OF assms] obtain m2 where m2: "y = VMap m2" by blast
  note l = veq_VMap_lookup[OF assms[unfolded m1 m2]]
  have "(case map_of m1 ''access_control_translation'' of
           Some (VList (x # xs)) \<Rightarrow>
             if x \<noteq> VNil then write_hash (accessControlTranslationHash hc x) else Some []
         | _ \<Rightarrow> Some []) =
        (case map_of m2 ''access_control_translation'' of
           Some (VList (x # xs)) \<Rightarrow>
             if x \<noteq> VNil then write_hash (accessControlTranslationHash hc x) else Some []
         | _ \<Rightarrow> Some [])"
    by (rule first_of_list_veq[OF l], rule guarded_veq)
       (simp_all add: accessControlTranslationHash_veq)
  then show ?thesis
    unfolding destinationHash_def m1 m2 val.case
    by (simp only: write_s_veq[OF l])
next
  case False
  from non_map_veq[OF assms False] False show ?thesis
    unfolding destinationHash_def by (cases x; cases y) auto
qed

lemma replicationRuleFilterHash_veq:
  assumes "veq x y"
    and th: "\<And>a b. veq (VMap a) (VMap b) \<Longrightarrow> th a = th b"
  shows "replicationRuleFilterHash hc th x = replicationRuleFilterHash hc th y"
proof (cases "\<exists>m. x = VMap m")
  case True
  then obtain m1 where m1: "x = VMap m1" by blast
  with veq_shape(1)[OF assms(1)] obtain m2 where m2: "y = VMap m2" by blast
  note l = veq_VMap_lookup[OF assms(1)[unfolded m1 m2]]
  have "(case map_of m1 ''tags'' of None \<Rightarrow> Some []
          | Some (VMap t) \<Rightarrow> Some (Sprintf_d (th t) @ ''-'') | Some _ \<Rightarrow> None) =
        (case map_of m2 ''tags'' of None \<Rightarrow> Some []
          | Some (VMap t) \<Rightarrow> Some (Sprintf_d (th t) @ ''-'') | Some _ \<Rightarrow> None)"
  proof (cases "map_of m1 ''tags''")
    case None
    with l[of "''tags''"] show ?thesis by (cases "map_of m2 ''tags''") simp_all
  next
    case (Some u)
    with l[of "''tags''"] obtain v where v: "map_of m2 ''tags'' = Some v" "veq u v"
      by (cases "map_of m2 ''tags''") simp_all
    show ?thesis
    proof (cases "\<exists>t. u = VMap t")
      case True
      then obtain t1 where t1: "u = VMap t1" by blast
      with veq_shape(1)[OF v(2)] obtain t2 where t2: "v = VMap t2" by blast
      from th v(2) t1 t2 have "th t1 = th t2" by blast
      with Some v(1) t1 t2 show ?thesis by simp
    next
      case False
      with veq_shape(1)[OF v(2)] have "\<not> (\<exists>t. v = VMap t)" by blast
      with False Some v(1) show ?thesis by (cases u; cases v) auto
    qed
  qed
  then show ?thesis
    unfolding replicationRuleFilterHash_def m1 m2 val.case
    by (simp only: write_s_veq[OF l])
next
  case False
  from non_map_veq[OF assms(1) False] False show ?thesis
    unfolding replicationRuleFilterHash_def by (cases x; cases y) auto
qed

lemma rulesHash_veq:
  assumes "veq x y"
    and th: "\<And>a b. veq (VMap a) (VMap b) \<Longrightarrow> th a = th b"
  shows "rulesHash hc th x = rulesHash hc th y"
proof (cases "\<exists>m. x = VMap m")
  case True
  then obtain m1 where m1: "x = VMap m1" by blast
  with veq_shape(1)[OF assms(1)] obtain m2 where m2: "y = VMap m2" by blast
  note l = veq_VMap_lookup[OF assms(1)[unfolded m1 m2]]
  have d: "(case map_of m1 ''destination'' of
           Some (VSet (x # xs)) \<Rightarrow> write_hash (destinationHash hc x) | _ \<Rightarrow> Some []) =
        (case map_of m2 ''destination'' of
           Some (VSet (x # xs)) \<Rightarrow> write_hash (destinationHash hc x) | _ \<Rightarrow> Some [])"
    by (rule first_of_set_veq[OF l]) (simp add: destinationHash_veq)
  have e: "(case map_of m1 ''source_selection_criteria'' of
           Some (VSet (x # xs)) \<Rightarrow>
             if x \<noteq> VNil then write_hash (sourceSelectionCriteriaHash hc x) else Some []
         | _ \<Rightarrow> Some []) =
        (case map_of m2 ''source_selection_criteria'' of
           Some (VSet (x # xs)) \<Rightarrow>
             if x \<noteq> VNil then write_hash (sourceSelectionCriteriaHash hc x) else Some []
         | _ \<Rightarrow> Some [])"
    by (rule first_of_set_veq[OF l], rule guarded_veq)
       (simp_all add: sourceSelectionCriteriaHash_veq)
  have g: "(case map_of m1 ''filter'' of
           Some (VList (x # xs)) \<Rightarrow>
             if x \<noteq> VNil then write_hash (replicationRuleFilterHash hc th x) else Some []
         | _ \<Rightarrow> Some []) =
        (case map_of m2 ''filter'' of
           Some (VList (x # xs)) \<Rightarrow>
             if x \<noteq> VNil then write_hash (replicationRuleFilterHash hc th x) else Some []
         | _ \<Rightarrow> Some [])"
    by (rule first_of_list_veq[OF l], rule guarded_veq)
       (simp_all add: replicationRuleFilterHash_veq[OF _ th])
  show ?thesis
    unfolding rulesHash_def m1 m2 val.case
    by (simp only: write_s_veq[OF l] write_d_veq[OF l] d e g)
next
  case False
  from non_map_veq[OF assms(1) False] False show ?thesis
    unfolding rulesHash_def by (cases x; cases y) auto
qed

lemma mset_short:
  assumes "mset zs = mset ys" and "length zs \<le> 1"
  shows "zs = ys"
proof -
  from assms(1) have l: "length ys = length zs" and s: "set ys = set zs"
    by (auto dest: mset_eq_length mset_eq_setD)
  show ?thesis
  proof (cases zs)
    case Nil
    with l show ?thesis by simp
  next
    case (Cons z zs')
    with assms(2) have z: "zs = [z]" by simp
    with l obtain y where y: "ys = [y]"
      by (cases ys) auto
    with s z show ?thesis by simp
  qed
qed

lemma same_fields_veq:
  assumes "same_fields x y" and "single_blocks x"
  shows "veq x y"
  using assms
proof (induction rule: same_fields.induct)
  case (same_refl v)
  show ?case by (rule veq_refl)
next
  case (same_map m1 m2)
  show ?case
  proof (rule veq_map)
    fix k
    from same_map.prems have s: "\<And>a. map_of m1 k = Some a \<Longrightarrow> single_blocks a"
      by (auto simp: list_all_iff dest!: map_of_SomeD)
    from same_map.IH[of k] s show "rel_option veq (map_of m1 k) (map_of m2 k)"
      by (cases "map_of m1 k"; cases "map_of m2 k") auto
  qed
next
  case (same_list xs zs ys)
  from same_list.IH have l: "length zs = length xs"
    by (simp add: list_all2_lengthD)
  with same_list.prems same_list.hyps have zs: "zs = ys"
    by (intro mset_short) simp_all
  from same_list.prems have "list_all single_blocks xs" by simp
  with same_list.IH have "list_all2 veq xs zs"
    by (auto simp: list_all2_conv_all_nth list_all_length)
  with zs show ?case by (auto intro: veq_list)
next
  case (same_set xs zs ys)
  from same_set.IH have l: "length zs = length xs"
    by (simp add: list_all2_lengthD)
  with same_set.prems same_set.hyps have zs: "zs = ys"
    by (intro mset_short) simp_all
  from same_set.prems have "list_all single_blocks xs" by simp
  with same_set.IH have "list_all2 veq xs zs"
    by (auto simp: list_all2_conv_all_nth list_all_length)
  with zs show ?case by (auto intro: veq_set)
qed

lemma veq_same_fields:
  assumes "veq x y"
  shows "same_fields x y"
  using assms
proof (induction rule: veq.induct)
  case (veq_refl v)
  show ?case by (rule same_refl)
next
  case (veq_map m1 m2)
  show ?case
  proof (rule same_map)
    fix k
    from veq_map.IH[of k] show "rel_option same_fields (map_of m1 k) (map_of m2 k)"
      by (cases "map_of m1 k"; cases "map_of m2 k") auto
  qed
next
  case (veq_list xs ys)
  then have "list_all2 same_fields xs ys"
    by (auto simp: list_all2_conv_all_nth)
  then show ?case by (rule same_list) simp
next
  case (veq_set xs ys)
  then have "list_all2 same_fields xs ys"
    by (auto simp: list_all2_conv_all_nth)
  then show ?case by (rule same_set) simp
qed

lemma conforms_scalar:
  "conforms_field KString v \<Longrightarrow> v = None \<or> (\<exists>s. v = Some (VStr s))"
  "conforms_field KInt v \<Longrightarrow> v = None \<or> (\<exists>i. v = Some (VInt i))"
  "conforms_field KBool v \<Longrightarrow> v = None \<or> (\<exists>b. v = Some (VBool b))"
  "conforms_field KTags v \<Longrightarrow> v = None \<or> (\<exists>t. v = Some (VMap t))"
  by (erule conforms_field.elims; auto)+

lemma conforms_list:
  "conforms_field (KList ok fp) v \<Longrightarrow>
     v = None \<or> v = Some (VList []) \<or> v = Some (VList [VNil]) \<or>
     (\<exists>m. v = Some (VList [VMap m]) \<and> ok m)"
  by (erule conforms_field.elims; auto)

lemma conforms_set:
  "conforms_field (KSet nil ok fp) v \<Longrightarrow>
     v = None \<or> v = Some (VSet []) \<or> (nil \<and> v = Some (VSet [VNil])) \<or>
     (\<exists>m. v = Some (VSet [VMap m]) \<and> ok m)"
  by (erule conforms_field.elims; auto)

lemma write_s_encode:
  "conforms_field KString (map_of m k) \<Longrightarrow> write_s m k = Some (encode th KString (map_of m k))"
  by (drule conforms_scalar) (auto simp: write_s_def)

lemma write_d_encode:
  "conforms_field KInt (map_of m k) \<Longrightarrow> write_d m k = Some (encode th KInt (map_of m k))"
  by (drule conforms_scalar) (auto simp: write_d_def)

lemma write_t_encode:
  "conforms_field KBool (map_of m k) \<Longrightarrow> write_t m k = Some (encode th KBool (map_of m k))"
  by (drule conforms_scalar) (auto simp: write_t_def)

lemma expirationHash_fingerprint:
  assumes "conforms expiration_fields m"
  shows "expirationHash hashcode (VMap m) = Some (fingerprint hashcode th expiration_fields m)"
  using assms
  by (simp add: conforms_def expiration_fields_def expirationHash_def fingerprint_def
      write_s_encode[where th = th] write_d_encode[where th = th] write_t_encode[where th = th])

lemma transitionHash_fingerprint:
  assumes "conforms transition_fields m"
  shows "transitionHash hashcode (VMap m) = Some (fingerprint hashcode th transition_fields m)"
  using assms
  by (simp add: conforms_def transition_fields_def transitionHash_def fingerprint_def
      write_s_encode[where th = th] write_d_encode[where th = th])

lemma sourceSseKmsObjectsHash_fingerprint:
  assumes "conforms sse_kms_fields m"
  shows "sourceSseKmsObjectsHash hashcode (VMap m) =
           Some (fingerprint hashcode th sse_kms_fields m)"
  using assms
  by (simp add: conforms_def sse_kms_fields_def sourceSseKmsObjectsHash_def fingerprint_def
      write_t_encode[where th = th])

lemma accessControlTranslationHash_fingerprint:
  assumes "conforms act_fields m"
  shows "accessControlTranslationHash hashcode (VMap m) =
           Some (fingerprint hashcode th act_fields m)"
  using assms
  by (simp add: conforms_def act_fields_def accessControlTranslationHash_def fingerprint_def
      write_s_encode[where th = th])

lemma replicationRuleFilterHash_fingerprint:
  assumes "conforms filter_fields m"
  shows "replicationRuleFilterHash hashcode th (VMap m) =
           Some (fingerprint hashcode th filter_fields m)"
proof -
  from assms have p: "conforms_field KString (map_of m ''prefix'')"
    and t: "conforms_field KTags (map_of m ''tags'')"
    by (simp_all add: conforms_def filter_fields_def)
  from conforms_scalar(4)[OF t] show ?thesis
    by (auto simp: replicationRuleFilterHash_def fingerprint_def filter_fields_def
        write_s_encode[OF p, where th = th])
qed

lemma sourceSelectionCriteriaHash_fingerprint:
  assumes "conforms (ssc_fields hashcode th) m"
  shows "sourceSelectionCriteriaHash hashcode (VMap m) =
           Some (fingerprint hashcode th (ssc_fields hashcode th) m)"
proof -
  from assms have "conforms_field
      (KSet False (conforms sse_kms_fields) (fingerprint hashcode th sse_kms_fields))
      (map_of m ''sse_kms_encrypted_objects'')"
    by (simp add: conforms_def ssc_fields_def)
  from conforms_set[OF this] show ?thesis
    by (auto simp: sourceSelectionCriteriaHash_def fingerprint_def ssc_fields_def write_hash_def
        sourceSseKmsObjectsHash_fingerprint[where th = th])
qed

lemma destinationHash_fingerprint:
  assumes "conforms (destination_fields hashcode th) m"
  shows "destinationHash hashcode (VMap m) =
           Some (fingerprint hashcode th (destination_fields hashcode th) m)"
proof -
  from assms have s: "conforms_field KString (map_of m ''bucket'')"
      "conforms_field KString (map_of m ''storage_class'')"
      "conforms_field KString (map_of m ''replica_kms_key_id'')"
      "conforms_field KString (map_of m ''account'')"
    and a: "conforms_field (KList (conforms act_fields) (fingerprint hashcode th act_fields))
      (map_of m ''access_control_translation'')"
    by (simp_all add: conforms_def destination_fields_def)
  from conforms_list[OF a] show ?thesis
    by (auto simp: destinationHash_def fingerprint_def destination_fields_def write_hash_def
        s[THEN write_s_encode, where th = th]
        accessControlTranslationHash_fingerprint[where th = th])
qed

lemma rulesHash_fingerprint:
  assumes "conforms (rule_fields hashcode th) m"
  shows "rulesHash hashcode th (VMap m) =
           Some (fingerprint hashcode th (rule_fields hashcode th) m)"
proof -
  from assms have s: "conforms_field KString (map_of m ''id'')"
      "conforms_field KString (map_of m ''prefix'')"
      "conforms_field KString (map_of m ''status'')"
    and p: "conforms_field KInt (map_of m ''priority'')"
    and d: "conforms_field (KSet False (conforms (destination_fields hashcode th))
         (fingerprint hashcode th (destination_fields hashcode th))) (map_of m ''destination'')"
    and c: "conforms_field (KSet True (conforms (ssc_fields hashcode th))
         (fingerprint hashcode th (ssc_fields hashcode th)))
         (map_of m ''source_selection_criteria'')"
    and f: "conforms_field (KList (conforms filter_fields)
         (fingerprint hashcode th filter_fields)) (map_of m ''filter'')"
    by (simp_all add: conforms_def rule_fields_def)
  from conforms_set[OF d] conforms_set[OF c] conforms_list[OF f] show ?thesis
    by (auto simp: rulesHash_def fingerprint_def rule_fields_def write_hash_def
        s[THEN write_s_encode, where th = th] write_d_encode[OF p, where th = th]
        destinationHash_fingerprint sourceSelectionCriteriaHash_fingerprint
        replicationRuleFilterHash_fingerprint)
qed

text \<open>
  C9: the expiration, transition, replication-rule and destination fingerprints are
  functions of the fields of the record alone.  They give equal digests on any two records
  whose corresponding fields are equal, whatever the order in which the fields of the records
  and of their nested blocks, and the items of their nested blocks, were supplied
  (\<^const>\<open>same_fields\<close>), for every string hash and every tags hash that does not depend on
  that order either; a nested block of these records holds one item at most, as the schema
  declares with \<^verbatim>\<open>MaxItems: 1\<close> (\<^const>\<open>single_blocks\<close>).  On every record that conforms to
  the schema each digest is the string hash of the fields written in the one declared order
  of the record type, an absent field contributing nothing and a nested block the decimal
  fingerprint of its item (\<^const>\<open>fingerprint\<close>).
\<close>

theorem fingerprints_depend_on_fields_only:
  assumes "same_fields r1 r2"
    and "single_blocks r1"
    and "\<And>a b. same_fields (VMap a) (VMap b) \<Longrightarrow> tagsMapToHash a = tagsMapToHash b"
  shows "expirationHash hashcode r1 = expirationHash hashcode r2 \<and>
         transitionHash hashcode r1 = transitionHash hashcode r2 \<and>
         rulesHash hashcode tagsMapToHash r1 = rulesHash hashcode tagsMapToHash r2 \<and>
         destinationHash hashcode r1 = destinationHash hashcode r2 \<and>
         (conforms expiration_fields m \<longrightarrow>
            expirationHash hashcode (VMap m) =
              Some (fingerprint hashcode tagsMapToHash expiration_fields m)) \<and>
         (conforms transition_fields m \<longrightarrow>
            transitionHash hashcode (VMap m) =
              Some (fingerprint hashcode tagsMapToHash transition_fields m)) \<and>
         (conforms (destination_fields hashcode tagsMapToHash) m \<longrightarrow>
            destinationHash hashcode (VMap m) =
              Some (fingerprint hashcode tagsMapToHash
                      (destination_fields hashcode tagsMapToHash) m)) \<and>
         (conforms (rule_fields hashcode tagsMapToHash) m \<longrightarrow>
            rulesHash hashcode tagsMapToHash (VMap m) =
              Some (fingerprint hashcode tagsMapToHash (rule_fields hashcode tagsMapToHash) m))"
proof (intro conjI impI)
  note v = same_fields_veq[OF assms(1,2)]
  have th: "\<And>a b. veq (VMap a) (VMap b) \<Longrightarrow> tagsMapToHash a = tagsMapToHash b"
    by (rule assms(3)) (rule veq_same_fields)
  show "expirationHash hashcode r1 = expirationHash hashcode r2"
    by (rule expirationHash_veq[OF v])
  show "transitionHash hashcode r1 = transitionHash hashcode r2"
    by (rule transitionHash_veq[OF v])
  show "rulesHash hashcode tagsMapToHash r1 = rulesHash hashcode tagsMapToHash r2"
    by (rule rulesHash_veq[OF v th])
  show "destinationHash hashcode r1 = destinationHash hashcode r2"
    by (rule destinationHash_veq[OF v])
next
  assume "conforms expiration_fields m"
  then show "expirationHash hashcode (VMap m) =
      Some (fingerprint hashcode tagsMapToHash expiration_fields m)"
    by (rule expirationHash_fingerprint)
next
  assume "conforms transition_fields m"
  then show "transitionHash hashcode (VMap m) =
      Some (fingerprint hashcode tagsMapToHash transition_fields m)"
    by (rule transitionHash_fingerprint)
next
  assume "conforms (destination_fields hashcode tagsMapToHash) m"
  then show "destinationHash hashcode (VMap m) =
      Some (fingerprint hashcode tagsMapToHash (destination_fields hashcode tagsMapToHash) m)"
    by (rule destinationHash_fingerprint)
next
  assume "conforms (rule_fields hashcode tagsMapToHash) m"
  then show "rulesHash hashcode tagsMapToHash (VMap m) =
      Some (fingerprint hashcode tagsMapToHash (rule_fields hashcode tagsMapToHash) m)"
    by (rule rulesHash_fingerprint)
qed

theorem fingerprints_depend_on_fields_only_witness:
  "same_fields
     (VMap [(''id'', VStr ''r1''), (''status'', VStr ''Enabled''), (''priority'', VInt 7),
            (''destination'', VSet [VMap [(''bucket'', VStr ''arn:aws:s3:::dst''),
                                          (''storage_class'', VStr ''STANDARD'')]]),
            (''filter'', VList [VMap [(''prefix'', VStr ''logs/''),
                                      (''tags'', VMap [(''team'', VStr ''ops'')])]])])
     (VMap [(''filter'', VList [VMap [(''tags'', VMap [(''team'', VStr ''ops'')]),
                                      (''prefix'', VStr ''logs/'')]]),
            (''destination'', VSet [VMap [(''storage_class'', VStr ''STANDARD''),
                                          (''bucket'', VStr ''arn:aws:s3:::dst'')]]),
            (''priority'', VInt 7), (''status'', VStr ''Enabled''), (''id'', VStr ''r1'')]) \<and>
   rulesHash (\<lambda>s. int (length s)) (\<lambda>t. 0)
     (VMap [(''id'', VStr ''r1''), (''status'', VStr ''Enabled''), (''priority'', VInt 7),
            (''destination'', VSet [VMap [(''bucket'', VStr ''arn:aws:s3:::dst''),
                                          (''storage_class'', VStr ''STANDARD'')]]),
            (''filter'', VList [VMap [(''prefix'', VStr ''logs/''),
                                      (''tags'', VMap [(''team'', VStr ''ops'')])]])]) =
   rulesHash (\<lambda>s. int (length s)) (\<lambda>t. 0)
     (VMap [(''filter'', VList [VMap [(''tags'', VMap [(''team'', VStr ''ops'')]),
                                      (''prefix'', VStr ''logs/'')]]),
            (''destination'', VSet [VMap [(''storage_class'', VStr ''STANDARD''),
                                          (''bucket'', VStr ''arn:aws:s3:::dst'')]]),
            (''priority'', VInt 7), (''status'', VStr ''Enabled''), (''id'', VStr ''r1'')]) \<and>
   rulesHash (\<lambda>s. int (length s)) (\<lambda>t. 0)
     (VMap [(''id'', VStr ''r1''), (''status'', VStr ''Enabled''), (''priority'', VInt 7),
            (''destination'', VSet [VMap [(''bucket'', VStr ''arn:aws:s3:::dst''),
                                          (''storage_class'', VStr ''STANDARD'')]]),
            (''filter'', VList [VMap [(''prefix'', VStr ''logs/''),
                                      (''tags'', VMap [(''team'', VStr ''ops'')])]])]) = Some 18 \<and>
   expirationHash (\<lambda>s. int (length s))
     (VMap [(''expired_object_delete_marker'', VBool False), (''days'', VInt 30),
            (''date'', VStr ''2030-01-01'')]) = Some 20"
proof -
  let ?h = "\<lambda>s :: string. int (length s)"
  let ?t = "\<lambda>t :: (string \<times> val) list. 0 :: int"
  let ?d1 = "[(''bucket'', VStr ''arn:aws:s3:::dst''), (''storage_class'', VStr ''STANDARD'')]"
  let ?d2 = "[(''storage_class'', VStr ''STANDARD''), (''bucket'', VStr ''arn:aws:s3:::dst'')]"
  let ?f1 = "[(''prefix'', VStr ''logs/''), (''tags'', VMap [(''team'', VStr ''ops'')])]"
  let ?f2 = "[(''tags'', VMap [(''team'', VStr ''ops'')]), (''prefix'', VStr ''logs/'')]"
  let ?m1 = "[(''id'', VStr ''r1''), (''status'', VStr ''Enabled''), (''priority'', VInt 7),
            (''destination'', VSet [VMap ?d1]), (''filter'', VList [VMap ?f1])]"
  let ?m2 = "[(''filter'', VList [VMap ?f2]), (''destination'', VSet [VMap ?d2]),
            (''priority'', VInt 7), (''status'', VStr ''Enabled''), (''id'', VStr ''r1'')]"
  let ?x = "[(''expired_object_delete_marker'', VBool False), (''days'', VInt 30),
            (''date'', VStr ''2030-01-01'')]"
  have d: "same_fields (VMap ?d1) (VMap ?d2)"
    by (rule same_map) (simp add: same_refl)
  have f: "same_fields (VMap ?f1) (VMap ?f2)"
    by (rule same_map) (simp add: same_refl)
  have ds: "same_fields (VSet [VMap ?d1]) (VSet [VMap ?d2])"
    by (rule same_set[where zs = "[VMap ?d2]"]) (simp_all add: d)
  have fs: "same_fields (VList [VMap ?f1]) (VList [VMap ?f2])"
    by (rule same_list[where zs = "[VMap ?f2]"]) (simp_all add: f)
  have v: "same_fields (VMap ?m1) (VMap ?m2)"
    by (rule same_map) (simp add: same_refl ds fs)
  have sb: "single_blocks (VMap ?m1)" by simp
  have c: "conforms (rule_fields ?h ?t) ?m1"
    by (simp add: conforms_def rule_fields_def destination_fields_def filter_fields_def)
  have cx: "conforms expiration_fields ?x"
    by (simp add: conforms_def expiration_fields_def)
  note r = fingerprints_depend_on_fields_only[where tagsMapToHash = ?t and hashcode = ?h
      and m = ?m1, OF v sb refl]
  note e = fingerprints_depend_on_fields_only[where tagsMapToHash = ?t and hashcode = ?h
      and m = ?x, OF v sb refl]
  have "rulesHash ?h ?t (VMap ?m1) = rulesHash ?h ?t (VMap ?m2)"
    by (rule r[THEN conjunct2, THEN conjunct2, THEN conjunct1])
  moreover from c have "rulesHash ?h ?t (VMap ?m1) = Some 18"
    using r[THEN conjunct2, THEN conjunct2, THEN conjunct2, THEN conjunct2, THEN conjunct2,
        THEN conjunct2, THEN conjunct2]
    by (simp add: fingerprint_def rule_fields_def destination_fields_def filter_fields_def
        Sprintf_d_def digit_char_def)
  moreover from cx have "expirationHash ?h (VMap ?x) = Some 20"
    using e[THEN conjunct2, THEN conjunct2, THEN conjunct2, THEN conjunct2, THEN conjunct1]
    by (simp add: fingerprint_def expiration_fields_def Sprintf_d_def Sprintf_t_def
        digit_char_def)
  ultimately show ?thesis using v by blast
qed

text \<open>
  C10: two destination records that differ at most in their \<^verbatim>\<open>account_id\<close> field have the same
  fingerprint.  The function reads the key \<^verbatim>\<open>account\<close>, which the schema of a destination does
  not have: a value under \<^verbatim>\<open>account\<close> would be written into the digest, one under
  \<^verbatim>\<open>account_id\<close> never is.
\<close>

theorem destinationHash_ignores_account_id:
  "((\<forall>k. k \<noteq> ''account_id'' \<longrightarrow> map_of m1 k = map_of m2 k) \<longrightarrow>
      destinationHash hashcode (VMap m1) = destinationHash hashcode (VMap m2)) \<and>
   destinationHash hashcode (VMap ((''account_id'', a) # m)) =
     destinationHash hashcode (VMap (filter (\<lambda>kv. fst kv \<noteq> ''account_id'') m)) \<and>
   (map_of m ''bucket'' = Some (VStr bk) \<and> map_of m ''storage_class'' = None \<and>
    map_of m ''replica_kms_key_id'' = None \<and> map_of m ''account'' = Some (VStr acct) \<and>
    map_of m ''access_control_translation'' = None \<longrightarrow>
      destinationHash hashcode (VMap m) = Some (hashcode (bk @ ''-'' @ acct @ ''-'')))"
proof (intro conjI impI)
  assume "\<forall>k. k \<noteq> ''account_id'' \<longrightarrow> map_of m1 k = map_of m2 k"
  then show "destinationHash hashcode (VMap m1) = destinationHash hashcode (VMap m2)"
    by (simp add: destinationHash_def write_s_def)
next
  have "\<And>k. k \<noteq> ''account_id'' \<Longrightarrow>
      map_of (filter (\<lambda>kv. fst kv \<noteq> ''account_id'') m) k = map_of m k"
    by (induction m) auto
  then show "destinationHash hashcode (VMap ((''account_id'', a) # m)) =
     destinationHash hashcode (VMap (filter (\<lambda>kv. fst kv \<noteq> ''account_id'') m))"
    by (simp add: destinationHash_def write_s_def)
next
  assume "map_of m ''bucket'' = Some (VStr bk) \<and> map_of m ''storage_class'' = None \<and>
    map_of m ''replica_kms_key_id'' = None \<and> map_of m ''account'' = Some (VStr acct) \<and>
    map_of m ''access_control_translation'' = None"
  then show "destinationHash hashcode (VMap m) = Some (hashcode (bk @ ''-'' @ acct @ ''-''))"
    by (simp add: destinationHash_def write_s_def)
qed

theorem destinationHash_ignores_account_id_witness:
  "destinationHash (\<lambda>s. int (length s))
     (VMap [(''bucket'', VStr ''arn:aws:s3:::dst''), (''account_id'', VStr ''111111111111'')]) =
   destinationHash (\<lambda>s. int (length s))
     (VMap [(''account_id'', VStr ''222222222222''), (''bucket'', VStr ''arn:aws:s3:::dst'')]) \<and>
   destinationHash (\<lambda>s. int (length s))
     (VMap [(''bucket'', VStr ''arn:aws:s3:::dst''), (''account'', VStr ''111111111111'')]) = Some 30"
proof -
  let ?m1 = "[(''bucket'', VStr ''arn:aws:s3:::dst''), (''account_id'', VStr ''111111111111'')]"
  let ?m2 = "[(''account_id'', VStr ''222222222222''), (''bucket'', VStr ''arn:aws:s3:::dst'')]"
  let ?m3 = "[(''bucket'', VStr ''arn:aws:s3:::dst''), (''account'', VStr ''111111111111'')]"
  let ?h = "\<lambda>s :: string. int (length s)"
  have h: "\<forall>k. k \<noteq> ''account_id'' \<longrightarrow> map_of ?m1 k = map_of ?m2 k" by simp
  from destinationHash_ignores_account_id
    [where ?m1.0 = ?m1 and ?m2.0 = ?m2 and hashcode = ?h, THEN conjunct1] h
  have "destinationHash ?h (VMap ?m1) = destinationHash ?h (VMap ?m2)" by (rule mp)
  moreover from destinationHash_ignores_account_id
    [where hashcode = ?h and m = ?m3 and bk = "''arn:aws:s3:::dst''" and acct = "''111111111111''",
      THEN conjunct2, THEN conjunct2]
  have "destinationHash ?h (VMap ?m3) = Some 30" by simp
  ultimately show ?thesis by blast
qed

section \<open>Proofs: delete\<close>

lemma isAWSErr_None [simp]: "\<not> isAWSErr None code msg"
  by (simp add: isAWSErr_def)

lemma Contains_empty [simp]: "Contains s []"
  by (cases s) (simp_all add: HasPrefix_def)

lemma isAWSErr_code: "isAWSErr err code [] \<longleftrightarrow> (\<exists>m. err = Some (AWSErr code m))"
  by (auto simp: isAWSErr_def split: option.splits error.splits)

lemma trace_s3_call:
  "s3_call conn c w = (err, w1) \<Longrightarrow> trace w1 = trace w @ [(c, err)]"
  by (auto simp: s3_call_def split: prod.splits)

lemma delete_not_found:
  assumes "s3_call conn (DeleteBucket (rd_Id d)) w = (err, w1)"
    and "isAWSErr err ''NoSuchBucket'' []"
  shows "resourceAwsS3BucketDelete conn d w = Some (None, w1)"
  using assms by (subst resourceAwsS3BucketDelete.simps) simp

lemma delete_succeeded:
  assumes "s3_call conn (DeleteBucket (rd_Id d)) w = (None, w1)"
  shows "resourceAwsS3BucketDelete conn d w = Some (None, w1)"
  using assms by (subst resourceAwsS3BucketDelete.simps) simp

lemma delete_no_force:
  assumes "s3_call conn (DeleteBucket (rd_Id d)) w = (err, w1)"
    and "\<not> Get_bool d ''force_destroy''"
  shows "resourceAwsS3BucketDelete conn d w =
           Some (if isAWSErr err ''NoSuchBucket'' [] then None
                 else map_option (\<lambda>e. Errorf ''error deleting S3 Bucket (%s): %s'' (Some e)) err,
                 w1)"
  using assms by (subst resourceAwsS3BucketDelete.simps) (simp split: option.splits)

lemma delete_list_error:
  assumes "s3_call conn (DeleteBucket (rd_Id d)) w = (err, w1)"
    and "isAWSErr err ''BucketNotEmpty'' []" and "Get_bool d ''force_destroy''"
    and "s3_ListObjectVersions conn (Get_string d ''bucket'') w1 = (Inl e, w2)"
  shows "resourceAwsS3BucketDelete conn d w =
           Some (Some (Errorf ''Error S3 Bucket list Object Versions err: %s'' (Some e)), w2)"
  using assms by (subst resourceAwsS3BucketDelete.simps) (auto simp: isAWSErr_code)

lemma delete_batch_error:
  assumes "s3_call conn (DeleteBucket (rd_Id d)) w = (err, w1)"
    and "isAWSErr err ''BucketNotEmpty'' []" and "Get_bool d ''force_destroy''"
    and "s3_ListObjectVersions conn (Get_string d ''bucket'') w1 = (Inr resp, w2)"
    and "s3_call conn (DeleteObjects (Get_string d ''bucket'')
            (map (\<lambda>(k, v). ObjectIdentifier k v) (DeleteMarkers resp) @
             map (\<lambda>(k, v). ObjectIdentifier k v) (Versions resp))) w2 = (Some e, w3)"
  shows "resourceAwsS3BucketDelete conn d w =
           Some (Some (Errorf ''Error S3 Bucket force_destroy error deleting: %s'' (Some e)), w3)"
  using assms by (subst resourceAwsS3BucketDelete.simps) (auto simp: isAWSErr_code)

lemma delete_force_step:
  assumes "s3_call conn (DeleteBucket (rd_Id d)) w = (err, w1)"
    and "isAWSErr err ''BucketNotEmpty'' []" and "Get_bool d ''force_destroy''"
    and "s3_ListObjectVersions conn (Get_string d ''bucket'') w1 = (Inr resp, w2)"
    and "s3_call conn (DeleteObjects (Get_string d ''bucket'')
            (map (\<lambda>(k, v). ObjectIdentifier k v) (DeleteMarkers resp) @
             map (\<lambda>(k, v). ObjectIdentifier k v) (Versions resp))) w2 = (None, w3)"
  shows "resourceAwsS3BucketDelete conn d w = resourceAwsS3BucketDelete conn d w3"
  using assms by (subst resourceAwsS3BucketDelete.simps) (auto simp: isAWSErr_code)

lemma trace_s3_ListObjectVersions:
  "s3_ListObjectVersions conn b w = (r, w1) \<Longrightarrow>
     trace w1 = trace w @ [(ListObjectVersions b, case r of Inl e \<Rightarrow> Some e | Inr _ \<Rightarrow> None)]"
  by (auto simp: s3_ListObjectVersions_def split: prod.splits)

lemma ideal_delete_empty:
  assumes "remote w (rd_Id d) = Some []"
  shows "resourceAwsS3BucketDelete (ideal_s3 page) d w =
           Some (None, w\<lparr>remote := (remote w)(rd_Id d := None),
                          trace := trace w @ [(DeleteBucket (rd_Id d), None)]\<rparr>)"
  by (rule delete_succeeded) (simp add: s3_call_def ideal_s3_def ideal_respond_def assms)

lemma set_listed: "set (listed page es) = entry_id ` set (take page es)"
  by (auto simp: listed_def)

lemma ideal_delete_step:
  assumes es: "remote w (rd_Id d) = Some (e # es)"
    and force: "Get_bool d ''force_destroy''"
    and same: "Get_string d ''bucket'' = rd_Id d"
  shows "resourceAwsS3BucketDelete (ideal_s3 page) d w =
         resourceAwsS3BucketDelete (ideal_s3 page) d
           (w\<lparr>remote := (remote w)(rd_Id d \<mapsto>
                   filter (\<lambda>x. entry_id x \<notin> set (listed page (e # es))) (e # es)),
               trace := trace w @
                 [(DeleteBucket (rd_Id d), Some BucketNotEmpty),
                  (ListObjectVersions (rd_Id d), None),
                  (DeleteObjects (rd_Id d) (listed page (e # es)), None)]\<rparr>)"
proof -
  let ?w1 = "w\<lparr>trace := trace w @ [(DeleteBucket (rd_Id d), Some BucketNotEmpty)]\<rparr>"
  let ?w2 = "w\<lparr>trace := trace w @ [(DeleteBucket (rd_Id d), Some BucketNotEmpty),
                  (ListObjectVersions (rd_Id d), None)]\<rparr>"
  let ?resp = "\<lparr>DeleteMarkers = map snd (filter fst (take page (e # es))),
                Versions = map snd (filter (\<lambda>e. \<not> fst e) (take page (e # es)))\<rparr>"
  have objs: "map (\<lambda>(k, v). ObjectIdentifier k v) (DeleteMarkers ?resp) @
              map (\<lambda>(k, v). ObjectIdentifier k v) (Versions ?resp) = listed page (e # es)"
    by (simp add: listed_def entry_id_def case_prod_beta comp_def)
  have 1: "s3_call (ideal_s3 page) (DeleteBucket (rd_Id d)) w = (Some BucketNotEmpty, ?w1)"
    by (simp add: s3_call_def ideal_s3_def ideal_respond_def es)
  have 2: "isAWSErr (Some BucketNotEmpty) ''BucketNotEmpty'' []"
    by (simp add: isAWSErr_def BucketNotEmpty_def)
  have 3: "s3_ListObjectVersions (ideal_s3 page) (Get_string d ''bucket'') ?w1 = (Inr ?resp, ?w2)"
    by (simp add: s3_ListObjectVersions_def ideal_s3_def ideal_list_def es same)
  have 4: "s3_call (ideal_s3 page) (DeleteObjects (Get_string d ''bucket'')
            (map (\<lambda>(k, v). ObjectIdentifier k v) (DeleteMarkers ?resp) @
             map (\<lambda>(k, v). ObjectIdentifier k v) (Versions ?resp))) ?w2 =
        (None, w\<lparr>remote := (remote w)(rd_Id d \<mapsto>
                   filter (\<lambda>x. entry_id x \<notin> set (listed page (e # es))) (e # es)),
               trace := trace w @
                 [(DeleteBucket (rd_Id d), Some BucketNotEmpty),
                  (ListObjectVersions (rd_Id d), None),
                  (DeleteObjects (rd_Id d) (listed page (e # es)), None)]\<rparr>)"
    unfolding objs by (simp add: s3_call_def ideal_s3_def ideal_respond_def es same)
  show ?thesis
    by (rule delete_force_step[OF 1 2 force 3 4])
qed

lemma remaining_shorter:
  assumes "0 < page"
  shows "length (filter (\<lambda>x. entry_id x \<notin> set (listed page (e # es))) (e # es)) < length (e # es)"
proof -
  from assms have "e \<in> set (take page (e # es))" by (cases page) simp_all
  then have "entry_id e \<in> set (listed page (e # es))" by (simp only: set_listed) blast
  then have "\<not> (\<lambda>x. entry_id x \<notin> set (listed page (e # es))) e" by simp
  then show ?thesis
    by (intro length_filter_less[where x = e]) simp_all
qed

lemma requested_objects_append:
  "requested_objects (xs @ ys) = requested_objects xs @ requested_objects ys"
  by (induction xs rule: requested_objects.induct) simp_all

lemma length_listed: "length (listed page es) = length (take page es)"
  unfolding listed_def using sum_length_filter_compl[of fst "take page es"] by simp

lemma distinct_listed:
  assumes "distinct (map entry_id es)"
  shows "distinct (listed page es)"
proof -
  from assms have d: "distinct (map entry_id (take page es))"
    by (metis distinct_take take_map)
  then have inj: "inj_on entry_id (set (take page es))" and dt: "distinct (take page es)"
    by (simp_all add: distinct_map)
  have "distinct (map entry_id (filter fst (take page es)))"
    and "distinct (map entry_id (filter (\<lambda>e. \<not> fst e) (take page es)))"
    using d by (simp_all add: distinct_map_filter)
  moreover have "entry_id ` set (filter fst (take page es)) \<inter>
                 entry_id ` set (filter (\<lambda>e. \<not> fst e) (take page es)) = {}"
    using inj by (auto dest: inj_onD)
  ultimately show ?thesis by (simp add: listed_def)
qed

lemma remaining_is_drop:
  assumes "distinct (map entry_id es)"
  shows "filter (\<lambda>x. entry_id x \<notin> set (listed page es)) es = drop page es"
proof -
  have es: "es = take page es @ drop page es" by simp
  from assms have "distinct (map entry_id (take page es) @ map entry_id (drop page es))"
    by (metis es map_append)
  then have disj: "entry_id ` set (take page es) \<inter> entry_id ` set (drop page es) = {}"
    by simp
  have "filter (\<lambda>x. entry_id x \<notin> set (listed page es)) (take page es) = []"
    by (simp add: set_listed filter_empty_conv)
  moreover have "filter (\<lambda>x. entry_id x \<notin> set (listed page es)) (drop page es) = drop page es"
    using disj by (auto simp: set_listed filter_id_conv)
  ultimately show ?thesis
    by (subst es) (simp only: filter_append append_Nil)
qed

lemma ideal_force_destroy:
  assumes page: "0 < page"
    and force: "Get_bool d ''force_destroy''"
    and same: "Get_string d ''bucket'' = rd_Id d"
    and es: "remote w (rd_Id d) = Some es"
  shows "\<exists>w' calls.
           resourceAwsS3BucketDelete (ideal_s3 page) d w = Some (None, w') \<and>
           remote w' = (remote w)(rd_Id d := None) \<and>
           trace w' = trace w @ calls @ [(DeleteBucket (rd_Id d), None)] \<and>
           set (requested_objects calls) = entry_id ` set es \<and>
           (distinct (map entry_id es) \<longrightarrow>
              distinct (requested_objects calls) \<and> length (requested_objects calls) = length es) \<and>
           bucket_deletes (rd_Id d) calls = []"
  using es
proof (induction "length es" arbitrary: es w rule: less_induct)
  case less
  show ?case
  proof (cases es)
    case Nil
    with less.prems have "remote w (rd_Id d) = Some []" by simp
    from ideal_delete_empty[OF this, of page] Nil show ?thesis
      by (intro exI[where x = "w\<lparr>remote := (remote w)(rd_Id d := None),
                          trace := trace w @ [(DeleteBucket (rd_Id d), None)]\<rparr>"]
                exI[where x = "[]"]) (simp add: bucket_deletes_def)
  next
    case (Cons e es0)
    let ?es' = "filter (\<lambda>x. entry_id x \<notin> set (listed page es)) es"
    let ?step = "[(DeleteBucket (rd_Id d), Some BucketNotEmpty),
                  (ListObjectVersions (rd_Id d), None),
                  (DeleteObjects (rd_Id d) (listed page es), None)]"
    let ?w3 = "w\<lparr>remote := (remote w)(rd_Id d \<mapsto> ?es'), trace := trace w @ ?step\<rparr>"
    from less.prems Cons have r: "remote w (rd_Id d) = Some (e # es0)" by simp
    have eq: "resourceAwsS3BucketDelete (ideal_s3 page) d w =
              resourceAwsS3BucketDelete (ideal_s3 page) d ?w3"
      using ideal_delete_step[OF r force same, of page] Cons by simp
    have shorter: "length ?es' < length es"
      using remaining_shorter[OF page, of e es0] Cons by simp
    have r3: "remote ?w3 (rd_Id d) = Some ?es'" by simp
    from less.hyps[OF shorter r3] obtain w' calls where
      res: "resourceAwsS3BucketDelete (ideal_s3 page) d ?w3 = Some (None, w')"
      and rem: "remote w' = (remote ?w3)(rd_Id d := None)"
      and tr: "trace w' = trace ?w3 @ calls @ [(DeleteBucket (rd_Id d), None)]"
      and objs: "set (requested_objects calls) = entry_id ` set ?es'"
      and cnt: "distinct (map entry_id ?es') \<longrightarrow>
              distinct (requested_objects calls) \<and> length (requested_objects calls) = length ?es'"
      and dels: "bucket_deletes (rd_Id d) calls = []"
      by blast
    have "set (requested_objects (?step @ calls)) = entry_id ` set es"
    proof -
      have "set (requested_objects (?step @ calls)) =
            set (listed page es) \<union> entry_id ` set ?es'"
        by (simp add: requested_objects_append objs)
      also have "\<dots> = entry_id ` set es"
        using set_take_subset[of page es] by (auto simp: set_listed)
      finally show ?thesis .
    qed
    moreover have "distinct (map entry_id es) \<longrightarrow>
        distinct (requested_objects (?step @ calls)) \<and>
        length (requested_objects (?step @ calls)) = length es"
    proof
      assume d: "distinct (map entry_id es)"
      then have "distinct (map entry_id ?es')" by (simp add: distinct_map_filter)
      with cnt have c: "distinct (requested_objects calls)"
        "length (requested_objects calls) = length ?es'" by simp_all
      have "set (listed page es) \<inter> set (requested_objects calls) = {}"
        by (auto simp: objs)
      with c(1) distinct_listed[OF d, of page]
      have "distinct (requested_objects (?step @ calls))"
        by (simp add: requested_objects_append)
      moreover have "length (requested_objects (?step @ calls)) = length es"
        using c(2) by (simp add: requested_objects_append length_listed remaining_is_drop[OF d])
      ultimately show "distinct (requested_objects (?step @ calls)) \<and>
        length (requested_objects (?step @ calls)) = length es" ..
    qed
    moreover have "bucket_deletes (rd_Id d) (?step @ calls) = []"
      using dels by (simp add: bucket_deletes_def)
    moreover have "remote w' = (remote w)(rd_Id d := None)"
      using rem by simp
    moreover have "trace w' = trace w @ (?step @ calls) @ [(DeleteBucket (rd_Id d), None)]"
      using tr by simp
    moreover have "resourceAwsS3BucketDelete (ideal_s3 page) d w = Some (None, w')"
      using eq res by simp
    ultimately show ?thesis
      by (intro exI[where x = w'] exI[where x = "?step @ calls"]) (simp only: simp_thms)
  qed
qed

text \<open>
  C1: whatever the remote answers to the bucket deletion (\<open>err\<close>, leaving the run in \<open>w1\<close>):
  on "not found" the delete returns success; on "not empty" with \<^verbatim>\<open>force_destroy\<close> false it
  returns that error (wrapped) and the only call issued is the bucket deletion; without
  \<^verbatim>\<open>force_destroy\<close> no listing and no object deletion is ever issued; with \<^verbatim>\<open>force_destroy\<close>
  true and "not empty" it lists the object versions, issues one batched delete for all the
  delete markers and versions listed, and goes on as a fresh delete from there.
\<close>

theorem delete_outcomes:
  assumes "s3_call conn (DeleteBucket (rd_Id d)) w = (err, w1)"
  shows
    "(isAWSErr err ''NoSuchBucket'' [] \<longrightarrow>
        resourceAwsS3BucketDelete conn d w = Some (None, w1)) \<and>
     (isAWSErr err ''BucketNotEmpty'' [] \<and> \<not> Get_bool d ''force_destroy'' \<longrightarrow>
        (\<exists>e. err = Some e \<and>
           resourceAwsS3BucketDelete conn d w =
             Some (Some (Errorf ''error deleting S3 Bucket (%s): %s'' (Some e)), w1)) \<and>
        trace w1 = trace w @ [(DeleteBucket (rd_Id d), err)]) \<and>
     (\<not> Get_bool d ''force_destroy'' \<longrightarrow>
        (\<exists>res. resourceAwsS3BucketDelete conn d w = Some (res, w1)) \<and>
        \<not> list_ex is_emptying_call (drop (length (trace w)) (trace w1))) \<and>
     (isAWSErr err ''BucketNotEmpty'' [] \<and> Get_bool d ''force_destroy'' \<and>
      s3_ListObjectVersions conn (Get_string d ''bucket'') w1 = (Inr resp, w2) \<and>
      s3_call conn (DeleteObjects (Get_string d ''bucket'')
            (map (\<lambda>(k, v). ObjectIdentifier k v) (DeleteMarkers resp) @
             map (\<lambda>(k, v). ObjectIdentifier k v) (Versions resp))) w2 = (None, w3) \<longrightarrow>
        resourceAwsS3BucketDelete conn d w = resourceAwsS3BucketDelete conn d w3 \<and>
        trace w3 = trace w @
          [(DeleteBucket (rd_Id d), err),
           (ListObjectVersions (Get_string d ''bucket''), None),
           (DeleteObjects (Get_string d ''bucket'')
              (map (\<lambda>(k, v). ObjectIdentifier k v) (DeleteMarkers resp) @
               map (\<lambda>(k, v). ObjectIdentifier k v) (Versions resp)), None)])"
proof (intro conjI impI)
  assume "isAWSErr err ''NoSuchBucket'' []"
  then show "resourceAwsS3BucketDelete conn d w = Some (None, w1)"
    by (rule delete_not_found[OF assms])
next
  assume a: "isAWSErr err ''BucketNotEmpty'' [] \<and> \<not> Get_bool d ''force_destroy''"
  then obtain m where m: "err = Some (AWSErr ''BucketNotEmpty'' m)"
    by (auto simp: isAWSErr_code)
  then have "\<not> isAWSErr err ''NoSuchBucket'' []" by (simp add: isAWSErr_def)
  with delete_no_force[OF assms] a m
  show "\<exists>e. err = Some e \<and>
           resourceAwsS3BucketDelete conn d w =
             Some (Some (Errorf ''error deleting S3 Bucket (%s): %s'' (Some e)), w1)"
    by simp
next
  show "trace w1 = trace w @ [(DeleteBucket (rd_Id d), err)]"
    by (rule trace_s3_call[OF assms])
next
  assume "\<not> Get_bool d ''force_destroy''"
  from delete_no_force[OF assms this]
  show "\<exists>res. resourceAwsS3BucketDelete conn d w = Some (res, w1)" by blast
next
  show "\<not> list_ex is_emptying_call (drop (length (trace w)) (trace w1))"
    by (simp add: trace_s3_call[OF assms])
next
  assume a: "isAWSErr err ''BucketNotEmpty'' [] \<and> Get_bool d ''force_destroy'' \<and>
      s3_ListObjectVersions conn (Get_string d ''bucket'') w1 = (Inr resp, w2) \<and>
      s3_call conn (DeleteObjects (Get_string d ''bucket'')
            (map (\<lambda>(k, v). ObjectIdentifier k v) (DeleteMarkers resp) @
             map (\<lambda>(k, v). ObjectIdentifier k v) (Versions resp))) w2 = (None, w3)"
  then show "resourceAwsS3BucketDelete conn d w = resourceAwsS3BucketDelete conn d w3"
    using delete_force_step[OF assms] by blast
  from a have l: "s3_ListObjectVersions conn (Get_string d ''bucket'') w1 = (Inr resp, w2)"
    and b: "s3_call conn (DeleteObjects (Get_string d ''bucket'')
            (map (\<lambda>(k, v). ObjectIdentifier k v) (DeleteMarkers resp) @
             map (\<lambda>(k, v). ObjectIdentifier k v) (Versions resp))) w2 = (None, w3)"
    by simp_all
  show "trace w3 = trace w @
          [(DeleteBucket (rd_Id d), err),
           (ListObjectVersions (Get_string d ''bucket''), None),
           (DeleteObjects (Get_string d ''bucket'')
              (map (\<lambda>(k, v). ObjectIdentifier k v) (DeleteMarkers resp) @
               map (\<lambda>(k, v). ObjectIdentifier k v) (Versions resp)), None)]"
    by (simp add: trace_s3_call[OF assms] trace_s3_ListObjectVersions[OF l] trace_s3_call[OF b])
qed

theorem delete_outcomes_witness:
  "map_option fst (resourceAwsS3BucketDelete (ideal_s3 1000)
      \<lparr>rd_Id = ''b'', rd_IsNewResource = False, rd_changed = [],
       rd_attrs = [(''bucket'', VStr ''b''), (''force_destroy'', VBool False)]\<rparr>
      \<lparr>remote = Map.empty, trace = [], synclog = [], idgen = 0\<rparr>) = Some None \<and>
   map_option (\<lambda>r. (fst r, trace (snd r))) (resourceAwsS3BucketDelete (ideal_s3 1000)
      \<lparr>rd_Id = ''b'', rd_IsNewResource = False, rd_changed = [],
       rd_attrs = [(''bucket'', VStr ''b''), (''force_destroy'', VBool False)]\<rparr>
      \<lparr>remote = Map.empty(''b'' \<mapsto> [(False, ''k'', ''v1'')]), trace = [], synclog = [],
       idgen = 0\<rparr>) =
     Some (Some (Errorf ''error deleting S3 Bucket (%s): %s'' (Some BucketNotEmpty)),
           [(DeleteBucket ''b'', Some BucketNotEmpty)]) \<and>
   map_option (\<lambda>r. (fst r, trace (snd r))) (resourceAwsS3BucketDelete (ideal_s3 1000)
      \<lparr>rd_Id = ''b'', rd_IsNewResource = False, rd_changed = [],
       rd_attrs = [(''bucket'', VStr ''b''), (''force_destroy'', VBool True)]\<rparr>
      \<lparr>remote = Map.empty(''b'' \<mapsto> [(False, ''k'', ''v1'')]), trace = [], synclog = [],
       idgen = 0\<rparr>) =
     Some (None,
           [(DeleteBucket ''b'', Some BucketNotEmpty), (ListObjectVersions ''b'', None),
            (DeleteObjects ''b'' [ObjectIdentifier ''k'' ''v1''], None),
            (DeleteBucket ''b'', None)])"
proof -
  let ?d = "\<lparr>rd_Id = ''b'', rd_IsNewResource = False, rd_changed = [],
       rd_attrs = [(''bucket'', VStr ''b''), (''force_destroy'', VBool False)]\<rparr>"
  let ?df = "\<lparr>rd_Id = ''b'', rd_IsNewResource = False, rd_changed = [],
       rd_attrs = [(''bucket'', VStr ''b''), (''force_destroy'', VBool True)]\<rparr>"
  let ?s = "Map.empty(''b'' \<mapsto> [(False, ''k'', ''v1'')]) :: s3state"
  let ?wn = "\<lparr>remote = Map.empty :: s3state, trace = [], synclog = [], idgen = 0\<rparr>"
  let ?w = "\<lparr>remote = ?s, trace = [], synclog = [], idgen = 0\<rparr>"
  let ?w1 = "\<lparr>remote = ?s, trace = [(DeleteBucket ''b'', Some BucketNotEmpty)], synclog = [],
       idgen = 0\<rparr>"
  let ?w2 = "\<lparr>remote = ?s, trace = [(DeleteBucket ''b'', Some BucketNotEmpty),
       (ListObjectVersions ''b'', None)], synclog = [], idgen = 0\<rparr>"
  let ?w3 = "\<lparr>remote = ?s(''b'' \<mapsto> []), trace = [(DeleteBucket ''b'', Some BucketNotEmpty),
       (ListObjectVersions ''b'', None), (DeleteObjects ''b'' [ObjectIdentifier ''k'' ''v1''], None)],
       synclog = [], idgen = 0\<rparr>"
  let ?resp = "\<lparr>DeleteMarkers = [], Versions = [(''k'', ''v1'')]\<rparr>"
  have c0: "s3_call (ideal_s3 1000) (DeleteBucket (rd_Id ?d)) ?wn =
      (Some NoSuchBucket, ?wn\<lparr>trace := [(DeleteBucket ''b'', Some NoSuchBucket)]\<rparr>)"
    by (simp add: s3_call_def ideal_s3_def ideal_respond_def)
  have n0: "isAWSErr (Some NoSuchBucket) ''NoSuchBucket'' []"
    by (simp add: isAWSErr_def NoSuchBucket_def)
  have c1: "s3_call (ideal_s3 1000) (DeleteBucket (rd_Id ?d)) ?w = (Some BucketNotEmpty, ?w1)"
    by (simp add: s3_call_def ideal_s3_def ideal_respond_def)
  have c1f: "s3_call (ideal_s3 1000) (DeleteBucket (rd_Id ?df)) ?w = (Some BucketNotEmpty, ?w1)"
    by (simp add: s3_call_def ideal_s3_def ideal_respond_def)
  have n1: "isAWSErr (Some BucketNotEmpty) ''BucketNotEmpty'' []"
    by (simp add: isAWSErr_def BucketNotEmpty_def)
  have nf: "\<not> Get_bool ?d ''force_destroy''" and f: "Get_bool ?df ''force_destroy''"
    by (simp_all add: Get_bool_def)
  have l: "s3_ListObjectVersions (ideal_s3 1000) (Get_string ?df ''bucket'') ?w1 = (Inr ?resp, ?w2)"
    by (simp add: s3_ListObjectVersions_def ideal_s3_def ideal_list_def Get_string_def)
  have b: "s3_call (ideal_s3 1000) (DeleteObjects (Get_string ?df ''bucket'')
            (map (\<lambda>(k, v). ObjectIdentifier k v) (DeleteMarkers ?resp) @
             map (\<lambda>(k, v). ObjectIdentifier k v) (Versions ?resp))) ?w2 = (None, ?w3)"
    by (simp add: s3_call_def ideal_s3_def ideal_respond_def Get_string_def entry_id_def)
  have r0: "resourceAwsS3BucketDelete (ideal_s3 1000) ?d ?wn =
      Some (None, ?wn\<lparr>trace := [(DeleteBucket ''b'', Some NoSuchBucket)]\<rparr>)"
    using delete_outcomes[OF c0, THEN conjunct1] n0 by (rule mp)
  have r1: "\<exists>e. Some BucketNotEmpty = Some e \<and> resourceAwsS3BucketDelete (ideal_s3 1000) ?d ?w =
      Some (Some (Errorf ''error deleting S3 Bucket (%s): %s'' (Some e)), ?w1)"
    using delete_outcomes[OF c1, THEN conjunct2, THEN conjunct1] n1 nf by blast
  have r2: "resourceAwsS3BucketDelete (ideal_s3 1000) ?df ?w =
      resourceAwsS3BucketDelete (ideal_s3 1000) ?df ?w3"
    using delete_outcomes[where resp = ?resp and ?w2.0 = ?w2 and ?w3.0 = ?w3, OF c1f,
        THEN conjunct2, THEN conjunct2, THEN conjunct2] n1 f l b by blast
  have r3: "resourceAwsS3BucketDelete (ideal_s3 1000) ?df ?w3 =
      Some (None, ?w3\<lparr>remote := (remote ?w3)(rd_Id ?df := None),
                       trace := trace ?w3 @ [(DeleteBucket (rd_Id ?df), None)]\<rparr>)"
    by (rule ideal_delete_empty) simp
  from r0 r1 r2 r3 show ?thesis by simp
qed

text \<open>
  C4: on a remote in which the batched delete removes every listed version and a listing
  returns the first \<open>page\<close> entries (\<open>page\<close> positive), the delete of a bucket holding the
  entries \<open>es\<close> (object versions and delete markers), with \<^verbatim>\<open>force_destroy\<close> true and the
  \<^verbatim>\<open>bucket\<close> attribute equal to the resource id, returns, and returns success: the bucket is
  gone, the objects it asked to delete are those of \<open>es\<close> (each once, \<open>length es\<close> in all,
  when their identifiers are distinct), and the one successful bucket deletion is the last
  call.  For any remote, a run ends at once with success when the bucket deletion succeeds or
  reports "not found", and an error of the listing or of the batched delete ends it with that
  error.
\<close>

theorem force_destroy_terminates:
  "(0 < page \<and> Get_bool d ''force_destroy'' \<and> Get_string d ''bucket'' = rd_Id d \<and>
    remote w (rd_Id d) = Some es \<longrightarrow>
      (\<exists>w' calls.
         resourceAwsS3BucketDelete (ideal_s3 page) d w = Some (None, w') \<and>
         remote w' = (remote w)(rd_Id d := None) \<and>
         trace w' = trace w @ calls @ [(DeleteBucket (rd_Id d), None)] \<and>
         set (requested_objects calls) = entry_id ` set es \<and>
         (distinct (map entry_id es) \<longrightarrow>
            distinct (requested_objects calls) \<and> length (requested_objects calls) = length es) \<and>
         bucket_deletes (rd_Id d) calls = [])) \<and>
   (s3_call conn (DeleteBucket (rd_Id d)) v = (err, v1) \<longrightarrow>
      (err = None \<or> isAWSErr err ''NoSuchBucket'' [] \<longrightarrow>
         resourceAwsS3BucketDelete conn d v = Some (None, v1)) \<and>
      (isAWSErr err ''BucketNotEmpty'' [] \<and> Get_bool d ''force_destroy'' \<and>
       s3_ListObjectVersions conn (Get_string d ''bucket'') v1 = (Inl e, v2) \<longrightarrow>
         resourceAwsS3BucketDelete conn d v =
           Some (Some (Errorf ''Error S3 Bucket list Object Versions err: %s'' (Some e)), v2)) \<and>
      (isAWSErr err ''BucketNotEmpty'' [] \<and> Get_bool d ''force_destroy'' \<and>
       s3_ListObjectVersions conn (Get_string d ''bucket'') v1 = (Inr resp, v2) \<and>
       s3_call conn (DeleteObjects (Get_string d ''bucket'')
            (map (\<lambda>(k, v). ObjectIdentifier k v) (DeleteMarkers resp) @
             map (\<lambda>(k, v). ObjectIdentifier k v) (Versions resp))) v2 = (Some e, v3) \<longrightarrow>
         resourceAwsS3BucketDelete conn d v =
           Some (Some (Errorf ''Error S3 Bucket force_destroy error deleting: %s'' (Some e)), v3)))"
proof (intro conjI impI)
  assume "0 < page \<and> Get_bool d ''force_destroy'' \<and> Get_string d ''bucket'' = rd_Id d \<and>
    remote w (rd_Id d) = Some es"
  then show "\<exists>w' calls.
         resourceAwsS3BucketDelete (ideal_s3 page) d w = Some (None, w') \<and>
         remote w' = (remote w)(rd_Id d := None) \<and>
         trace w' = trace w @ calls @ [(DeleteBucket (rd_Id d), None)] \<and>
         set (requested_objects calls) = entry_id ` set es \<and>
         (distinct (map entry_id es) \<longrightarrow>
            distinct (requested_objects calls) \<and> length (requested_objects calls) = length es) \<and>
         bucket_deletes (rd_Id d) calls = []"
    using ideal_force_destroy[of page d w es] by blast
next
  assume c: "s3_call conn (DeleteBucket (rd_Id d)) v = (err, v1)"
    and "err = None \<or> isAWSErr err ''NoSuchBucket'' []"
  then show "resourceAwsS3BucketDelete conn d v = Some (None, v1)"
    using delete_succeeded[of conn d v v1] delete_not_found[OF c] by blast
next
  assume c: "s3_call conn (DeleteBucket (rd_Id d)) v = (err, v1)"
    and "isAWSErr err ''BucketNotEmpty'' [] \<and> Get_bool d ''force_destroy'' \<and>
       s3_ListObjectVersions conn (Get_string d ''bucket'') v1 = (Inl e, v2)"
  then show "resourceAwsS3BucketDelete conn d v =
           Some (Some (Errorf ''Error S3 Bucket list Object Versions err: %s'' (Some e)), v2)"
    using delete_list_error[OF c] by blast
next
  assume c: "s3_call conn (DeleteBucket (rd_Id d)) v = (err, v1)"
    and "isAWSErr err ''BucketNotEmpty'' [] \<and> Get_bool d ''force_destroy'' \<and>
       s3_ListObjectVersions conn (Get_string d ''bucket'') v1 = (Inr resp, v2) \<and>
       s3_call conn (DeleteObjects (Get_string d ''bucket'')
            (map (\<lambda>(k, v). ObjectIdentifier k v) (DeleteMarkers resp) @
             map (\<lambda>(k, v). ObjectIdentifier k v) (Versions resp))) v2 = (Some e, v3)"
  then show "resourceAwsS3BucketDelete conn d v =
           Some (Some (Errorf ''Error S3 Bucket force_destroy error deleting: %s'' (Some e)), v3)"
    using delete_batch_error[OF c] by blast
qed

theorem force_destroy_terminates_witness:
  "\<exists>w' calls.
     resourceAwsS3BucketDelete (ideal_s3 2)
       \<lparr>rd_Id = ''b'', rd_IsNewResource = False, rd_changed = [],
        rd_attrs = [(''bucket'', VStr ''b''), (''force_destroy'', VBool True)]\<rparr>
       \<lparr>remote = Map.empty(''b'' \<mapsto>
           [(False, ''k'', ''v1''), (True, ''k'', ''v2''), (False, ''j'', ''v1'')]),
        trace = [], synclog = [], idgen = 0\<rparr> = Some (None, w') \<and>
     remote w' ''b'' = None \<and>
     trace w' = calls @ [(DeleteBucket ''b'', None)] \<and>
     set (requested_objects calls) =
       {ObjectIdentifier ''k'' ''v1'', ObjectIdentifier ''k'' ''v2'', ObjectIdentifier ''j'' ''v1''} \<and>
     length (requested_objects calls) = 3 \<and>
     bucket_deletes ''b'' calls = []"
proof -
  let ?d = "\<lparr>rd_Id = ''b'', rd_IsNewResource = False, rd_changed = [],
        rd_attrs = [(''bucket'', VStr ''b''), (''force_destroy'', VBool True)]\<rparr>"
  let ?es = "[(False, ''k'', ''v1''), (True, ''k'', ''v2''), (False, ''j'', ''v1'')]"
  let ?w = "\<lparr>remote = Map.empty(''b'' \<mapsto> ?es) :: s3state,
        trace = [], synclog = [], idgen = 0\<rparr>"
  have h: "0 < (2::nat) \<and> Get_bool ?d ''force_destroy'' \<and> Get_string ?d ''bucket'' = rd_Id ?d \<and>
    remote ?w (rd_Id ?d) = Some ?es"
    by (simp add: Get_bool_def Get_string_def)
  have dist: "distinct (map entry_id ?es)"
    by (simp add: entry_id_def)
  from force_destroy_terminates[where page = 2 and d = ?d and w = ?w and es = ?es,
      THEN conjunct1, THEN mp, OF h]
  obtain w' calls where
    "resourceAwsS3BucketDelete (ideal_s3 2) ?d ?w = Some (None, w')"
    "remote w' = (remote ?w)(rd_Id ?d := None)"
    "trace w' = trace ?w @ calls @ [(DeleteBucket (rd_Id ?d), None)]"
    "set (requested_objects calls) = entry_id ` set ?es"
    "distinct (map entry_id ?es) \<longrightarrow>
       distinct (requested_objects calls) \<and> length (requested_objects calls) = length ?es"
    "bucket_deletes (rd_Id ?d) calls = []"
    by blast
  with dist show ?thesis
    by (intro exI[where x = w'] exI[where x = calls]) (simp add: entry_id_def)
qed

section \<open>Proofs: retried calls\<close>

lemma retryOnAwsCode_retried:
  "retryOnAwsCode n code f = retried n (\<lambda>e. isAWSErr (Some e) code []) f"
  by (rule ext) (simp add: retryOnAwsCode_def retried_def)

lemma s3_call_fields:
  assumes "s3_call conn c w = (err, w')"
  shows "trace w' = trace w @ [(c, err)]" and "synclog w' = synclog w" and "idgen w' = idgen w"
  using assms by (auto simp: s3_call_def split: prod.splits)

lemma Retry_s3_call:
  assumes "Retry n (\<lambda>w. case s3_call conn c w of
                    (None, w') \<Rightarrow> (None, w')
                  | (Some e, w') \<Rightarrow>
                      if P e then (Some (RetryableError e), w')
                      else (Some (NonRetryableError e), w')) w = (err, w')"
  shows "\<exists>es. es \<noteq> [] \<and> trace w' = trace w @ map (Pair c) es \<and>
              synclog w' = synclog w \<and> idgen w' = idgen w \<and>
              (err = last es \<or> (\<exists>e. err = Some (TimeoutError (Some e)) \<and> last es = Some e))"
  using assms
proof (induction n arbitrary: w)
  case 0
  obtain e1 w1 where c: "s3_call conn c w = (e1, w1)" by (cases "s3_call conn c w")
  note f = s3_call_fields[OF c]
  from 0 c have "w' = w1 \<and> (err = e1 \<or> (\<exists>e. err = Some (TimeoutError (Some e)) \<and> e1 = Some e))"
    by (auto split: option.splits if_splits)
  with f show ?case
    by (intro exI[where x = "[e1]"]) auto
next
  case (Suc n)
  obtain e1 w1 where c: "s3_call conn c w = (e1, w1)" by (cases "s3_call conn c w")
  note f = s3_call_fields[OF c]
  show ?case
  proof (cases "\<exists>e. e1 = Some e \<and> P e")
    case True
    with Suc.prems c have "Retry n (\<lambda>w. case s3_call conn c w of
                    (None, w') \<Rightarrow> (None, w')
                  | (Some e, w') \<Rightarrow>
                      if P e then (Some (RetryableError e), w')
                      else (Some (NonRetryableError e), w')) w1 = (err, w')"
      by auto
    from Suc.IH[OF this] obtain es where es: "es \<noteq> []" "trace w' = trace w1 @ map (Pair c) es"
      "synclog w' = synclog w1" "idgen w' = idgen w1"
      "err = last es \<or> (\<exists>e. err = Some (TimeoutError (Some e)) \<and> last es = Some e)"
      by blast
    with f show ?thesis
      by (intro exI[where x = "e1 # es"]) auto
  next
    case False
    with Suc.prems c have "w' = w1 \<and> err = e1"
      by (auto split: option.splits if_splits)
    with f show ?thesis
      by (intro exI[where x = "[e1]"]) auto
  qed
qed

lemma retried_s3_call:
  assumes "retried n P (s3_call conn c) w = (err, w')"
  shows "\<exists>es. es \<noteq> [] \<and> trace w' = trace w @ map (Pair c) es \<and>
              synclog w' = synclog w \<and> idgen w' = idgen w \<and> err = last es"
proof -
  let ?F = "\<lambda>w. case s3_call conn c w of
                    (None, w') \<Rightarrow> (None, w')
                  | (Some e, w') \<Rightarrow>
                      if P e then (Some (RetryableError e), w')
                      else (Some (NonRetryableError e), w')"
  obtain e1 w1 where r: "Retry n ?F w = (e1, w1)" by (cases "Retry n ?F w")
  from Retry_s3_call[OF r] obtain es where es: "es \<noteq> []" "trace w1 = trace w @ map (Pair c) es"
      "synclog w1 = synclog w" "idgen w1 = idgen w"
      "e1 = last es \<or> (\<exists>e. e1 = Some (TimeoutError (Some e)) \<and> last es = Some e)"
    by blast
  show ?thesis
  proof (cases "isResourceTimeoutError e1")
    case True
    with assms r have c: "s3_call conn c w1 = (err, w')"
      by (simp add: retried_def)
    note f = s3_call_fields[OF c]
    with es show ?thesis
      by (intro exI[where x = "es @ [err]"]) auto
  next
    case False
    with assms r have "err = e1" "w' = w1" by (simp_all add: retried_def)
    moreover from False es(5) have "e1 = last es"
      by (auto simp: isResourceTimeoutError_def)
    ultimately show ?thesis using es by blast
  qed
qed

lemma retryOnAwsCode_s3_call:
  assumes "retryOnAwsCode n code (s3_call conn c) w = (err, w')"
  shows "\<exists>es. es \<noteq> [] \<and> trace w' = trace w @ map (Pair c) es \<and>
              synclog w' = synclog w \<and> idgen w' = idgen w \<and> err = last es"
  using assms unfolding retryOnAwsCode_retried by (rule retried_s3_call)

lemma wrap_error_fields:
  "snd (wrap_error fmt r) = snd r"
  "fst (wrap_error fmt r) = None \<longleftrightarrow> fst r = None"
  by (auto simp: wrap_error_def split: prod.splits option.splits)

section \<open>Proofs: the website synchronizer\<close>

lemma website_put_cases:
  assumes reads: "read_string website ''index_document'' = Some idx"
      "read_string website ''error_document'' = Some ed"
      "read_string website ''redirect_all_requests_to'' = Some r"
      "read_string website ''routing_rules'' = Some rr"
    and run: "resourceAwsS3BucketWebsitePut e conn d website w = (err, w')"
  shows "(idx = [] \<and> r = [] \<and> err = Some (Errorf
            ''Must specify either index_document or redirect_all_requests_to.'' None) \<and> w' = w) \<or>
         ((idx \<noteq> [] \<or> r \<noteq> []) \<and> rr \<noteq> [] \<and> (\<exists>x. json_Unmarshal e rr = Inl x \<and> err = Some x) \<and>
            w' = w) \<or>
         ((idx \<noteq> [] \<or> r \<noteq> []) \<and>
          (\<exists>rules es. (if rr \<noteq> [] then json_Unmarshal e rr else Inr []) = Inr rules \<and> es \<noteq> [] \<and>
             trace w' = trace w @
               map (Pair (PutBucketWebsite (Get_string d ''bucket'')
                 \<lparr>IndexDocument = (if idx \<noteq> [] then Some idx else None),
                  ErrorDocument = (if ed \<noteq> [] then Some ed else None),
                  RedirectAllRequestsTo =
                    (if r \<noteq> [] then Some (redirectAllRequestsTo e r) else None),
                  RoutingRules = rules\<rparr>)) es))"
proof (cases "idx = [] \<and> r = []")
  case True
  with reads run show ?thesis
    by (simp add: resourceAwsS3BucketWebsitePut_def websitePutInput_def)
next
  case False
  show ?thesis
  proof (cases "if rr \<noteq> [] then json_Unmarshal e rr else Inr []")
    case (Inl x)
    with False reads run show ?thesis
      by (auto simp: resourceAwsS3BucketWebsitePut_def websitePutInput_def split: if_splits)
  next
    case (Inr rules)
    let ?cfg = "\<lparr>IndexDocument = (if idx \<noteq> [] then Some idx else None),
                  ErrorDocument = (if ed \<noteq> [] then Some ed else None),
                  RedirectAllRequestsTo =
                    (if r \<noteq> [] then Some (redirectAllRequestsTo e r) else None),
                  RoutingRules = rules\<rparr>"
    let ?c = "PutBucketWebsite (Get_string d ''bucket'') ?cfg"
    obtain e1 w1 where rt: "retryOnAwsCode (deadline_1m e) ''NoSuchBucket'' (s3_call conn ?c) w = (e1, w1)"
      by (cases "retryOnAwsCode (deadline_1m e) ''NoSuchBucket'' (s3_call conn ?c) w")
    from False reads Inr have inp: "websitePutInput e website = Inr ?cfg"
      by (simp add: websitePutInput_def)
    with run rt have "w' = w1"
      using wrap_error_fields(1)[of "''Error putting S3 website: %s''" "(e1, w1)"]
      by (simp add: resourceAwsS3BucketWebsitePut_def)
    with retryOnAwsCode_s3_call[OF rt] obtain es where
      "es \<noteq> []" "trace w' = trace w @ map (Pair ?c) es" by blast
    with False Inr show ?thesis by blast
  qed
qed

text \<open>
  C6: a website value whose four fields read as \<open>idx\<close>, \<open>ed\<close>, \<open>r\<close> and \<open>rr\<close> (index document,
  error document, redirect target, routing rules).  When the index document and the redirect
  target are both empty the put fails with an error and issues no call.  When the redirect
  target is not empty, every call the put issues is a \<^verbatim>\<open>PutBucketWebsite\<close> on the bucket whose
  redirect has, if the target parses as a URL with a non-empty scheme, the host followed by the
  path and (when the query is not empty) \<^verbatim>\<open>?\<close> and the query as host name and the scheme as
  protocol, and otherwise the raw target as host name and no protocol.  A call is issued
  whenever one of the two is given and the routing rules are empty or well-formed.
\<close>

theorem website_put_request:
  assumes "read_string website ''index_document'' = Some idx"
      "read_string website ''error_document'' = Some ed"
      "read_string website ''redirect_all_requests_to'' = Some r"
      "read_string website ''routing_rules'' = Some rr"
    and "resourceAwsS3BucketWebsitePut e conn d website w = (err, w')"
  shows
    "(idx = [] \<and> r = [] \<longrightarrow> err \<noteq> None \<and> w' = w) \<and>
     (r \<noteq> [] \<and> url_Parse e r = Inr u \<and> Scheme u \<noteq> [] \<longrightarrow>
        (\<forall>ce \<in> set (drop (length (trace w)) (trace w')).
           \<exists>cfg. fst ce = PutBucketWebsite (Get_string d ''bucket'') cfg \<and>
             RedirectAllRequestsTo cfg =
               Some \<lparr>HostName = Some (Host u @ Path u @
                                        (if RawQuery u \<noteq> [] then ''?'' @ RawQuery u else [])),
                     Protocol = Some (Scheme u)\<rparr>)) \<and>
     (r \<noteq> [] \<and> (url_Parse e r = Inl perr \<or> (url_Parse e r = Inr u \<and> Scheme u = [])) \<longrightarrow>
        (\<forall>ce \<in> set (drop (length (trace w)) (trace w')).
           \<exists>cfg. fst ce = PutBucketWebsite (Get_string d ''bucket'') cfg \<and>
             RedirectAllRequestsTo cfg = Some \<lparr>HostName = Some r, Protocol = None\<rparr>)) \<and>
     ((idx \<noteq> [] \<or> r \<noteq> []) \<and> (rr = [] \<or> (\<exists>rules. json_Unmarshal e rr = Inr rules)) \<longrightarrow>
        drop (length (trace w)) (trace w') \<noteq> [])"
proof -
  note c = website_put_cases[OF assms]
  have new: "\<And>ce. ce \<in> set (drop (length (trace w)) (trace w')) \<Longrightarrow> r \<noteq> [] \<Longrightarrow>
      \<exists>cfg. fst ce = PutBucketWebsite (Get_string d ''bucket'') cfg \<and>
        RedirectAllRequestsTo cfg = Some (redirectAllRequestsTo e r)"
    using c by auto
  show ?thesis
  proof (intro conjI impI ballI)
    assume "idx = [] \<and> r = []"
    with c show "err \<noteq> None" by auto
  next
    assume "idx = [] \<and> r = []"
    with c show "w' = w" by auto
  next
    fix ce
    assume h: "r \<noteq> [] \<and> url_Parse e r = Inr u \<and> Scheme u \<noteq> []"
      and "ce \<in> set (drop (length (trace w)) (trace w'))"
    with new[of ce] obtain cfg where "fst ce = PutBucketWebsite (Get_string d ''bucket'') cfg"
      "RedirectAllRequestsTo cfg = Some (redirectAllRequestsTo e r)" by blast
    moreover from h have "redirectAllRequestsTo e r =
        \<lparr>HostName = Some (Host u @ Path u @
                                        (if RawQuery u \<noteq> [] then ''?'' @ RawQuery u else [])),
                     Protocol = Some (Scheme u)\<rparr>"
      by (simp add: redirectAllRequestsTo_def)
    ultimately show "\<exists>cfg. fst ce = PutBucketWebsite (Get_string d ''bucket'') cfg \<and>
             RedirectAllRequestsTo cfg =
               Some \<lparr>HostName = Some (Host u @ Path u @
                                        (if RawQuery u \<noteq> [] then ''?'' @ RawQuery u else [])),
                     Protocol = Some (Scheme u)\<rparr>"
      by simp
  next
    fix ce
    assume h: "r \<noteq> [] \<and> (url_Parse e r = Inl perr \<or> (url_Parse e r = Inr u \<and> Scheme u = []))"
      and "ce \<in> set (drop (length (trace w)) (trace w'))"
    with new[of ce] obtain cfg where "fst ce = PutBucketWebsite (Get_string d ''bucket'') cfg"
      "RedirectAllRequestsTo cfg = Some (redirectAllRequestsTo e r)" by blast
    moreover from h have "redirectAllRequestsTo e r = \<lparr>HostName = Some r, Protocol = None\<rparr>"
      by (auto simp: redirectAllRequestsTo_def)
    ultimately show "\<exists>cfg. fst ce = PutBucketWebsite (Get_string d ''bucket'') cfg \<and>
             RedirectAllRequestsTo cfg = Some \<lparr>HostName = Some r, Protocol = None\<rparr>"
      by simp
  next
    assume "(idx \<noteq> [] \<or> r \<noteq> []) \<and> (rr = [] \<or> (\<exists>rules. json_Unmarshal e rr = Inr rules))"
    with c show "drop (length (trace w)) (trace w') \<noteq> []" by auto
  qed
qed

lemma retryOnAwsCode_success:
  "f w = (None, w') \<Longrightarrow> retryOnAwsCode n code f w = (None, w')"
  by (cases n) (simp_all add: retryOnAwsCode_def isResourceTimeoutError_def)

theorem website_put_request_witness:
  "(\<exists>cfg. fst (hd (trace (snd (resourceAwsS3BucketWebsitePut example_env accepting_s3
        (bucket_data []) [(''redirect_all_requests_to'', VStr ''https://example.com/path?x=1'')]
        fresh_world)))) = PutBucketWebsite ''b'' cfg \<and>
      RedirectAllRequestsTo cfg =
        Some \<lparr>HostName = Some ''example.com/path?x=1'', Protocol = Some ''https''\<rparr>) \<and>
   (\<exists>cfg. fst (hd (trace (snd (resourceAwsS3BucketWebsitePut example_env accepting_s3
        (bucket_data []) [(''redirect_all_requests_to'', VStr ''plainhost'')]
        fresh_world)))) = PutBucketWebsite ''b'' cfg \<and>
      RedirectAllRequestsTo cfg = Some \<lparr>HostName = Some ''plainhost'', Protocol = None\<rparr>) \<and>
   fst (resourceAwsS3BucketWebsitePut example_env accepting_s3 (bucket_data [])
        [(''error_document'', VStr ''error.html'')] fresh_world) \<noteq> None \<and>
   snd (resourceAwsS3BucketWebsitePut example_env accepting_s3 (bucket_data [])
        [(''error_document'', VStr ''error.html'')] fresh_world) = fresh_world"
proof -
  let ?m1 = "[(''redirect_all_requests_to'', VStr ''https://example.com/path?x=1'')]"
  let ?m2 = "[(''redirect_all_requests_to'', VStr ''plainhost'')]"
  let ?m3 = "[(''error_document'', VStr ''error.html'')]"
  let ?run = "\<lambda>m. resourceAwsS3BucketWebsitePut example_env accepting_s3 (bucket_data []) m fresh_world"
  let ?u1 = "\<lparr>Scheme = ''https'', Host = ''example.com'', Path = ''/path'', RawQuery = ''x=1''\<rparr>"
  let ?u2 = "\<lparr>Scheme = [], Host = [], Path = ''plainhost'', RawQuery = []\<rparr>"
  have p1: "url_Parse example_env ''https://example.com/path?x=1'' = Inr ?u1"
    by (simp add: example_env_def)
  have p2: "url_Parse example_env ''plainhost'' = Inr ?u2"
    by (simp add: example_env_def)
  note t1 = website_put_request[where website = ?m1 and idx = "[]" and ed = "[]"
      and r = "''https://example.com/path?x=1''" and rr = "[]" and e = example_env
      and conn = accepting_s3 and d = "bucket_data []" and w = fresh_world
      and err = "fst (?run ?m1)" and w' = "snd (?run ?m1)" and u = ?u1]
  note t2 = website_put_request[where website = ?m2 and idx = "[]" and ed = "[]"
      and r = "''plainhost''" and rr = "[]" and e = example_env
      and conn = accepting_s3 and d = "bucket_data []" and w = fresh_world
      and err = "fst (?run ?m2)" and w' = "snd (?run ?m2)" and u = ?u2 and perr = GoPanic]
  note t3 = website_put_request[where website = ?m3 and idx = "[]" and ed = "''error.html''"
      and r = "[]" and rr = "[]" and e = example_env
      and conn = accepting_s3 and d = "bucket_data []" and w = fresh_world
      and err = "fst (?run ?m3)" and w' = "snd (?run ?m3)"]
  have r1: "\<forall>ce \<in> set (trace (snd (?run ?m1))). \<exists>cfg. fst ce = PutBucketWebsite ''b'' cfg \<and>
      RedirectAllRequestsTo cfg =
        Some \<lparr>HostName = Some ''example.com/path?x=1'', Protocol = Some ''https''\<rparr>"
    and n1: "trace (snd (?run ?m1)) \<noteq> []"
    using t1 p1 by (simp_all add: read_string_def assert_string_def fresh_world_def
        bucket_data_def Get_string_def)
  have r2: "\<forall>ce \<in> set (trace (snd (?run ?m2))). \<exists>cfg. fst ce = PutBucketWebsite ''b'' cfg \<and>
      RedirectAllRequestsTo cfg = Some \<lparr>HostName = Some ''plainhost'', Protocol = None\<rparr>"
    and n2: "trace (snd (?run ?m2)) \<noteq> []"
    using t2 p2 by (simp_all add: read_string_def assert_string_def fresh_world_def
        bucket_data_def Get_string_def)
  have r3: "fst (?run ?m3) \<noteq> None \<and> snd (?run ?m3) = fresh_world"
    using t3 by (simp add: read_string_def assert_string_def)
  from r1 n1 have "\<exists>cfg. fst (hd (trace (snd (?run ?m1)))) = PutBucketWebsite ''b'' cfg \<and>
      RedirectAllRequestsTo cfg =
        Some \<lparr>HostName = Some ''example.com/path?x=1'', Protocol = Some ''https''\<rparr>"
    by (meson hd_in_set)
  moreover from r2 n2 have "\<exists>cfg. fst (hd (trace (snd (?run ?m2)))) = PutBucketWebsite ''b'' cfg \<and>
      RedirectAllRequestsTo cfg = Some \<lparr>HostName = Some ''plainhost'', Protocol = None\<rparr>"
    by (meson hd_in_set)
  ultimately show ?thesis using r3 by blast
qed

section \<open>Proofs: the replication synchronizer\<close>

text \<open>
  C2: when the replication configuration of the desired state is not empty and the
  versioning facet is absent, or present with \<^verbatim>\<open>enabled\<close> false, the replication synchronizer
  returns the validation error and leaves the run as it found it: no call is added to the
  trace and the remote state is untouched.
\<close>

theorem replication_requires_versioning:
  "Get_list d ''replication_configuration'' \<noteq> [] \<and>
   (Get_list d ''versioning'' = [] \<or>
    (\<exists>m vs. Get_list d ''versioning'' = VMap m # vs \<and> map_of m ''enabled'' = Some (VBool False)))
   \<longrightarrow>
     resourceAwsS3BucketReplicationConfigurationUpdate e conn d w =
       (Some (Errorf ''versioning must be enabled to allow S3 bucket replication'' None), w) \<and>
     trace (snd (resourceAwsS3BucketReplicationConfigurationUpdate e conn d w)) = trace w \<and>
     remote (snd (resourceAwsS3BucketReplicationConfigurationUpdate e conn d w)) = remote w"
proof
  assume h: "Get_list d ''replication_configuration'' \<noteq> [] \<and>
   (Get_list d ''versioning'' = [] \<or>
    (\<exists>m vs. Get_list d ''versioning'' = VMap m # vs \<and> map_of m ''enabled'' = Some (VBool False)))"
  then have "hasVersioning d = Some False"
    by (auto simp: hasVersioning_def assert_map_def assert_bool_def)
  with h have "resourceAwsS3BucketReplicationConfigurationUpdate e conn d w =
       (Some (Errorf ''versioning must be enabled to allow S3 bucket replication'' None), w)"
    by (cases "Get_list d ''replication_configuration''")
       (simp_all add: resourceAwsS3BucketReplicationConfigurationUpdate_def)
  then show "resourceAwsS3BucketReplicationConfigurationUpdate e conn d w =
       (Some (Errorf ''versioning must be enabled to allow S3 bucket replication'' None), w) \<and>
     trace (snd (resourceAwsS3BucketReplicationConfigurationUpdate e conn d w)) = trace w \<and>
     remote (snd (resourceAwsS3BucketReplicationConfigurationUpdate e conn d w)) = remote w"
    by simp
qed

theorem replication_requires_versioning_witness:
  "resourceAwsS3BucketReplicationConfigurationUpdate example_env accepting_s3
     (replicated_bucket []) fresh_world =
     (Some (Errorf ''versioning must be enabled to allow S3 bucket replication'' None), fresh_world) \<and>
   resourceAwsS3BucketReplicationConfigurationUpdate example_env accepting_s3
     (replicated_bucket [VMap [(''enabled'', VBool False), (''mfa_delete'', VBool False)]])
     fresh_world =
     (Some (Errorf ''versioning must be enabled to allow S3 bucket replication'' None), fresh_world) \<and>
   fst (resourceAwsS3BucketReplicationConfigurationUpdate example_env accepting_s3
     (replicated_bucket [VMap [(''enabled'', VBool True), (''mfa_delete'', VBool False)]])
     fresh_world) = None"
proof -
  let ?off = "[VMap [(''enabled'', VBool False), (''mfa_delete'', VBool False)]]"
  let ?on = "[VMap [(''enabled'', VBool True), (''mfa_delete'', VBool False)]]"
  have a: "Get_list (replicated_bucket []) ''replication_configuration'' \<noteq> [] \<and>
      (Get_list (replicated_bucket []) ''versioning'' = [] \<or>
       (\<exists>m vs. Get_list (replicated_bucket []) ''versioning'' = VMap m # vs \<and>
          map_of m ''enabled'' = Some (VBool False)))"
    by (simp add: replicated_bucket_def bucket_data_def Get_list_def)
  have b: "Get_list (replicated_bucket ?off) ''replication_configuration'' \<noteq> [] \<and>
      (Get_list (replicated_bucket ?off) ''versioning'' = [] \<or>
       (\<exists>m vs. Get_list (replicated_bucket ?off) ''versioning'' = VMap m # vs \<and>
          map_of m ''enabled'' = Some (VBool False)))"
    by (simp add: replicated_bucket_def bucket_data_def Get_list_def)
  have c: "fst (resourceAwsS3BucketReplicationConfigurationUpdate example_env accepting_s3
     (replicated_bucket ?on) fresh_world) = None"
    by (simp add: resourceAwsS3BucketReplicationConfigurationUpdate_def replicated_bucket_def
        bucket_data_def Get_list_def Get_string_def hasVersioning_def assert_map_def
        assert_bool_def assert_string_def assert_set_def assert_int_def
        replicationConfigurationInput_def replicationRule_def present_nonempty_def
        replicationDestination_def replicationSourceSelectionCriteria_def
        replicationRuleSchema_def first_of_set_def first_of_list_def
        retried_def example_env_def accepting_s3_def fresh_world_def s3_call_def
        wrap_error_def isResourceTimeoutError_def)
  from replication_requires_versioning[of "replicated_bucket []" example_env accepting_s3
      fresh_world, THEN mp, OF a, THEN conjunct1]
    replication_requires_versioning[of "replicated_bucket ?off" example_env accepting_s3
      fresh_world, THEN mp, OF b, THEN conjunct1] c
  show ?thesis by blast
qed

section \<open>Proofs: the lifecycle synchronizer\<close>

lemma PrefixedUniqueId_fields:
  assumes "PrefixedUniqueId e p w = (i, w1)"
  shows "i = p @ unique_suffix e (idgen w)" and "trace w1 = trace w" and "synclog w1 = synclog w"
    and "remote w1 = remote w" and "idgen w1 = Suc (idgen w)"
  using assms by (auto simp: PrefixedUniqueId_def)

lemma HasPrefix_append [simp]: "HasPrefix (p @ s) p"
  by (simp add: HasPrefix_def)

lemma lifecycleRule_world:
  assumes "lifecycleRule e v w = (r, w1)"
  shows "trace w1 = trace w \<and> synclog w1 = synclog w \<and> remote w1 = remote w"
  using assms unfolding lifecycleRule_def
  by (auto simp: PrefixedUniqueId_def split: option.splits sum.splits prod.splits)

lemma lifecycleRules_world:
  assumes "lifecycleRules e vs w = (r, w1)"
  shows "trace w1 = trace w \<and> synclog w1 = synclog w \<and> remote w1 = remote w"
  using assms
proof (induction vs arbitrary: w r w1)
  case Nil
  then show ?case by simp
next
  case (Cons v vs)
  obtain a wa where a: "lifecycleRule e v w = (a, wa)" by (cases "lifecycleRule e v w")
  note wa = lifecycleRule_world[OF a]
  show ?case
  proof (cases a)
    case (Inl err)
    with Cons.prems a wa show ?thesis by simp
  next
    case (Inr x)
    obtain b wb where b: "lifecycleRules e vs wa = (b, wb)" by (cases "lifecycleRules e vs wa")
    from Cons.IH[OF b] wa have "trace wb = trace w \<and> synclog wb = synclog w \<and> remote wb = remote w"
      by simp
    moreover from Cons.prems a Inr b have "w1 = wb" by (auto split: sum.splits)
    ultimately show ?thesis by simp
  qed
qed

lemma lifecycle_update_run:
  assumes "Get_list d ''lifecycle_rule'' = v # vs"
    and "resourceAwsS3BucketLifecycleUpdate e conn d w = (err, w')"
  shows "(\<exists>perr wa. lifecycleRules e (v # vs) w = (Inl perr, wa) \<and> err = Some perr \<and>
            trace w' = trace w) \<or>
         (\<exists>rules wa es. lifecycleRules e (v # vs) w = (Inr rules, wa) \<and> idgen w' = idgen wa \<and>
            es \<noteq> [] \<and>
            trace w' = trace w @
              map (Pair (PutBucketLifecycleConfiguration (Get_string d ''bucket'') rules)) es)"
proof -
  obtain a wa where a: "lifecycleRules e (v # vs) w = (a, wa)"
    by (cases "lifecycleRules e (v # vs) w")
  note wa = lifecycleRules_world[OF a]
  show ?thesis
  proof (cases a)
    case (Inl perr)
    with assms a have "err = Some perr" "w' = wa"
      by (simp_all add: resourceAwsS3BucketLifecycleUpdate_def)
    with wa a Inl show ?thesis by simp
  next
    case (Inr rules)
    let ?c = "PutBucketLifecycleConfiguration (Get_string d ''bucket'') rules"
    obtain e1 w1 where rt:
      "retryOnAwsCode (deadline_1m e) ''NoSuchBucket'' (s3_call conn ?c) wa = (e1, w1)"
      by (cases "retryOnAwsCode (deadline_1m e) ''NoSuchBucket'' (s3_call conn ?c) wa")
    from assms a Inr rt have "w' = w1"
      using wrap_error_fields(1)[of "''Error putting S3 lifecycle: %s''" "(e1, w1)"]
      by (simp add: resourceAwsS3BucketLifecycleUpdate_def)
    with retryOnAwsCode_s3_call[OF rt] wa obtain es where
      es: "es \<noteq> []" "trace w' = trace w @ map (Pair ?c) es" "idgen w' = idgen wa" by auto
    with a Inr show ?thesis by blast
  qed
qed

lemma lifecycleRule_encodes:
  assumes "lifecycleRule e v w = (Inr rule, w1)"
  shows "encodes_filter e v rule"
    and "supplied_id v = Some i \<Longrightarrow> lr_ID rule = i \<and> idgen w1 = idgen w"
    and "supplied_id v = None \<Longrightarrow>
           lr_ID rule = ''tf-s3-lifecycle-'' @ unique_suffix e (idgen w) \<and>
           idgen w1 = Suc (idgen w)"
proof -
  from assms obtain r where v: "v = VMap r"
    by (cases v) (auto simp: lifecycleRule_def assert_map_def)
  from assms v obtain flt where flt: "lifecycleRuleFilter e r = Some flt"
    by (cases "lifecycleRuleFilter e r") (auto simp: lifecycleRule_def assert_map_def)
  then obtain tags pre where tp: "map_of r ''tags'' = Some (VMap tags)"
      "map_of r ''prefix'' = Some (VStr pre)"
    and f: "flt = (if tags \<noteq> []
                  then \<lparr>flt_And = Some (pre, tagsFromMapS3 e tags), flt_Prefix = None\<rparr>
                  else \<lparr>flt_And = None, flt_Prefix = Some pre\<rparr>)"
    by (auto simp: lifecycleRuleFilter_def assert_map_def assert_string_def
        split: option.splits val.splits bind_splits)
  from assms v flt have "lr_Filter rule = flt"
    unfolding lifecycleRule_def
    by (auto simp: assert_map_def PrefixedUniqueId_def
        split: option.splits sum.splits prod.splits)
  with v tp f show "encodes_filter e v rule"
    by (simp add: encodes_filter_def)
  from assms v flt show "supplied_id v = Some i \<Longrightarrow> lr_ID rule = i \<and> idgen w1 = idgen w"
    unfolding lifecycleRule_def
    by (auto simp: assert_map_def supplied_id_def
        split: option.splits sum.splits prod.splits)
  from assms v flt show "supplied_id v = None \<Longrightarrow>
           lr_ID rule = ''tf-s3-lifecycle-'' @ unique_suffix e (idgen w) \<and>
           idgen w1 = Suc (idgen w)"
    unfolding lifecycleRule_def
    by (auto simp: assert_map_def supplied_id_def PrefixedUniqueId_def
        split: option.splits sum.splits prod.splits)
qed

lemma generated_ids_Cons:
  "generated_ids (v # vs) (r # rs) =
     (if supplied_id v = None then [lr_ID r] else []) @ generated_ids vs rs"
  by (simp add: generated_ids_def)

lemma lifecycleRules_encodes:
  assumes "lifecycleRules e vs w = (Inr rs, w1)"
  shows "list_all2 (encodes_filter e) vs rs \<and> list_all2 encodes_id vs rs \<and>
         idgen w \<le> idgen w1 \<and>
         generated_ids vs rs =
           map (\<lambda>k. ''tf-s3-lifecycle-'' @ unique_suffix e k) [idgen w..<idgen w1]"
  using assms
proof (induction vs arbitrary: w rs w1)
  case Nil
  then show ?case by (simp add: generated_ids_def)
next
  case (Cons v vs)
  obtain a wa where a: "lifecycleRule e v w = (a, wa)" by (cases "lifecycleRule e v w")
  obtain b wb where b: "lifecycleRules e vs wa = (b, wb)" by (cases "lifecycleRules e vs wa")
  from Cons.prems a b obtain x xs where x: "a = Inr x" "b = Inr xs" "rs = x # xs" "w1 = wb"
    by (auto split: sum.splits)
  note ih = Cons.IH[OF b[unfolded x(2)]]
  note one = lifecycleRule_encodes[OF a[unfolded x(1)]]
  show ?case
  proof (cases "supplied_id v")
    case None
    from one(3)[OF None] have i: "lr_ID x = ''tf-s3-lifecycle-'' @ unique_suffix e (idgen w)"
      and g: "idgen wa = Suc (idgen w)" by simp_all
    from i have "encodes_id v x"
      by (simp add: encodes_id_def None HasPrefix_def)
    moreover from ih g have "idgen w < idgen w1"
      by (simp add: x(4))
    then have "[idgen w..<idgen w1] = idgen w # [Suc (idgen w)..<idgen w1]"
      by (rule upt_conv_Cons)
    ultimately show ?thesis
      using ih one(1) i g None by (simp add: x generated_ids_Cons)
  next
    case (Some i)
    from one(2)[OF Some] have "encodes_id v x" and "idgen wa = idgen w"
      by (simp_all add: encodes_id_def Some)
    with ih one(1) Some show ?thesis
      by (simp add: x generated_ids_Cons)
  qed
qed

lemma fresh_ids:
  assumes "inj (unique_suffix e)" and "a \<le> b"
  shows "distinct (map (\<lambda>k. ''tf-s3-lifecycle-'' @ unique_suffix e k) [a..<b])"
    and "list_all (\<lambda>i. i \<notin> set (lifecycle_ids e a))
           (map (\<lambda>k. ''tf-s3-lifecycle-'' @ unique_suffix e k) [a..<b])"
    and "list_all (\<lambda>i. i \<in> set (lifecycle_ids e b))
           (map (\<lambda>k. ''tf-s3-lifecycle-'' @ unique_suffix e k) [a..<b])"
proof -
  from assms(1) have inj: "inj (\<lambda>k. ''tf-s3-lifecycle-'' @ unique_suffix e k)"
    by (auto simp: inj_def)
  then show "distinct (map (\<lambda>k. ''tf-s3-lifecycle-'' @ unique_suffix e k) [a..<b])"
    by (simp add: distinct_map inj_on_def inj_def)
  from assms(1) show "list_all (\<lambda>i. i \<notin> set (lifecycle_ids e a))
           (map (\<lambda>k. ''tf-s3-lifecycle-'' @ unique_suffix e k) [a..<b])"
    by (auto simp: list_all_iff lifecycle_ids_def dest: injD)
  from assms(2) show "list_all (\<lambda>i. i \<in> set (lifecycle_ids e b))
           (map (\<lambda>k. ''tf-s3-lifecycle-'' @ unique_suffix e k) [a..<b])"
    by (auto simp: list_all_iff lifecycle_ids_def)
qed

lemma digit_char_code:
  assumes "k < 10"
  shows "of_char (digit_char k) = 48 + k"
proof -
  from assms have "k \<in> {0, 1, 2, 3, 4, 5, 6, 7, 8, 9}" by auto
  then show ?thesis
    by (auto simp: digit_char_def)
qed

lemma digit_char_inj:
  assumes "a < 10" and "b < 10" and "digit_char a = digit_char b"
  shows "a = b"
proof -
  from assms(3) have "(of_char (digit_char a) :: nat) = of_char (digit_char b)"
    by (rule arg_cong)
  then have "48 + a = 48 + b"
    unfolding digit_char_code[OF assms(1)] digit_char_code[OF assms(2)] .
  then show ?thesis by (rule add_left_imp_eq)
qed

lemma show_nat_nonempty: "show_nat n \<noteq> []"
  by (subst show_nat.simps) (simp del: show_nat.simps)

lemma show_nat_inj: "show_nat n = show_nat m \<Longrightarrow> n = m"
proof (induction n arbitrary: m rule: show_nat.induct)
  case (1 n)
  show ?case
  proof (cases "n < 10")
    case True
    show ?thesis
    proof (cases "m < 10")
      case m: True
      from "1.prems" True m have "digit_char n = digit_char m"
        by (simp del: show_nat.simps add: show_nat.simps[of n] show_nat.simps[of m])
      with True m show ?thesis by (rule digit_char_inj)
    next
      case m: False
      from "1.prems" True m have "show_nat (m div 10) = []"
        by (simp del: show_nat.simps add: show_nat.simps[of n] show_nat.simps[of m] Cons_eq_append_conv)
      with show_nat_nonempty show ?thesis by blast
    qed
  next
    case False
    show ?thesis
    proof (cases "m < 10")
      case m: True
      from "1.prems" False m have "show_nat (n div 10) = []"
        by (simp del: show_nat.simps add: show_nat.simps[of n] show_nat.simps[of m] append_eq_Cons_conv)
      with show_nat_nonempty show ?thesis by blast
    next
      case m: False
      from "1.prems" False m have "show_nat (n div 10) = show_nat (m div 10)"
        and d: "digit_char (n mod 10) = digit_char (m mod 10)"
        by (simp_all del: show_nat.simps add: show_nat.simps[of n] show_nat.simps[of m])
      from "1.IH"[OF False this(1)] have "n div 10 = m div 10" .
      moreover from d have "n mod 10 = m mod 10"
        by (intro digit_char_inj) simp_all
      ultimately show ?thesis
        by (metis div_mult_mod_eq)
    qed
  qed
qed

text \<open>
  C7: when the desired state has lifecycle rules, every request the lifecycle synchronizer
  issues is a \<^verbatim>\<open>PutBucketLifecycleConfiguration\<close> on the bucket whose rules encode the desired
  rules one by one, in order: a rule with a non-empty tag map has the filter "prefix and tags",
  any other rule the bare prefix filter; a rule with a non-empty identifier keeps it; any
  other rule has a generated identifier, which starts with \<^verbatim>\<open>tf-s3-lifecycle-\<close>, differs from
  the generated identifier of every other rule of the request and from every identifier
  generated earlier, and lies among the identifiers generated when the synchronizer returns,
  so that later ones differ from it as well.  The generator of the SDK is taken to give
  different suffixes at different values of its counter.  A synchronizer that returns
  without error has issued such a request.
\<close>

theorem lifecycle_rule_encoding:
  assumes "Get_list d ''lifecycle_rule'' = v # vs"
    and "resourceAwsS3BucketLifecycleUpdate e conn d w = (err, w')"
    and "inj (unique_suffix e)"
  shows "(\<forall>ce \<in> set (drop (length (trace w)) (trace w')).
            \<exists>rules. fst ce = PutBucketLifecycleConfiguration (Get_string d ''bucket'') rules \<and>
                    encodes_rules e (idgen w) (v # vs) rules \<and>
                    list_all (\<lambda>i. i \<in> set (lifecycle_ids e (idgen w')))
                      (generated_ids (v # vs) rules)) \<and>
         (err = None \<longrightarrow> drop (length (trace w)) (trace w') \<noteq> [])"
  using lifecycle_update_run[OF assms(1,2)]
proof
  assume "\<exists>perr wa. lifecycleRules e (v # vs) w = (Inl perr, wa) \<and> err = Some perr \<and>
            trace w' = trace w"
  then show ?thesis by auto
next
  assume "\<exists>rules wa es. lifecycleRules e (v # vs) w = (Inr rules, wa) \<and> idgen w' = idgen wa \<and>
            es \<noteq> [] \<and>
            trace w' = trace w @
              map (Pair (PutBucketLifecycleConfiguration (Get_string d ''bucket'') rules)) es"
  then obtain rules wa es where r: "lifecycleRules e (v # vs) w = (Inr rules, wa)"
    and g: "idgen w' = idgen wa" and es: "es \<noteq> []"
    and t: "trace w' = trace w @
              map (Pair (PutBucketLifecycleConfiguration (Get_string d ''bucket'') rules)) es"
    by blast
  note enc = lifecycleRules_encodes[OF r]
  from enc have le: "idgen w \<le> idgen wa" by simp
  from enc fresh_ids[OF assms(3) le] have "encodes_rules e (idgen w) (v # vs) rules"
    and "list_all (\<lambda>i. i \<in> set (lifecycle_ids e (idgen w'))) (generated_ids (v # vs) rules)"
    by (simp_all add: encodes_rules_def g)
  with t es show ?thesis by auto
qed

theorem lifecycle_rule_encoding_witness:
  "inj (unique_suffix example_env) \<and>
   (\<exists>r1 r2 r3.
     fst (hd (trace (snd (resourceAwsS3BucketLifecycleUpdate example_env accepting_s3
        (bucket_data [(''lifecycle_rule'', VList lifecycle_example)]) fresh_world)))) =
       PutBucketLifecycleConfiguration ''b'' [r1, r2, r3] \<and>
     lr_Filter r1 = \<lparr>flt_And = Some (''logs/'', [Tag ''team'' ''ops'']), flt_Prefix = None\<rparr> \<and>
     lr_ID r1 = ''keep'' \<and>
     lr_Filter r2 = \<lparr>flt_And = None, flt_Prefix = Some ''tmp/''\<rparr> \<and>
     HasPrefix (lr_ID r2) ''tf-s3-lifecycle-'' \<and>
     HasPrefix (lr_ID r3) ''tf-s3-lifecycle-'' \<and>
     lr_ID r2 \<noteq> lr_ID r3)"
proof -
  let ?d = "bucket_data [(''lifecycle_rule'', VList lifecycle_example)]"
  let ?run = "resourceAwsS3BucketLifecycleUpdate example_env accepting_s3 ?d fresh_world"
  let ?v1 = "VMap [(''id'', VStr ''keep''), (''prefix'', VStr ''logs/''),
            (''tags'', VMap [(''team'', VStr ''ops'')]), (''enabled'', VBool True)]"
  let ?v2 = "VMap [(''id'', VStr []), (''prefix'', VStr ''tmp/''), (''tags'', VMap []),
            (''enabled'', VBool False)]"
  let ?v3 = "VMap [(''prefix'', VStr ''old/''), (''tags'', VMap []), (''enabled'', VBool True)]"
  have inj: "inj (unique_suffix example_env)"
    by (rule injI) (auto simp del: show_nat.simps simp: example_env_def dest: show_nat_inj)
  have g: "Get_list ?d ''lifecycle_rule'' = ?v1 # [?v2, ?v3]"
    by (simp add: bucket_data_def Get_list_def lifecycle_example_def)
  have ok: "fst ?run = None"
    by (simp add: resourceAwsS3BucketLifecycleUpdate_def g lifecycleRule_def
        lifecycleRuleFilter_def lifecycleExpiration_def lifecycleNoncurrentVersionExpiration_def
        set_list_def assert_map_def assert_string_def nonempty_string_def PrefixedUniqueId_def
        retryOnAwsCode_def example_env_def accepting_s3_def s3_call_def fresh_world_def
        wrap_error_def isResourceTimeoutError_def)
  have run: "?run = (fst ?run, snd ?run)" by simp
  note t = lifecycle_rule_encoding[OF g run inj]
  from t ok have ne: "trace (snd ?run) \<noteq> []"
    by (simp add: fresh_world_def)
  from t have "\<forall>ce \<in> set (trace (snd ?run)).
      \<exists>rules. fst ce = PutBucketLifecycleConfiguration (Get_string ?d ''bucket'') rules \<and>
                    encodes_rules example_env 0 [?v1, ?v2, ?v3] rules"
    by (simp add: fresh_world_def) blast
  with ne obtain rules where
    c: "fst (hd (trace (snd ?run))) = PutBucketLifecycleConfiguration (Get_string ?d ''bucket'') rules"
    and l: "encodes_rules example_env 0 [?v1, ?v2, ?v3] rules"
    by (meson hd_in_set)
  from l obtain r1 r2 r3 where rs: "rules = [r1, r2, r3]"
    by (auto simp: encodes_rules_def list_all2_Cons1)
  from l rs have f: "encodes_filter example_env ?v1 r1" "encodes_filter example_env ?v2 r2"
    and i: "encodes_id ?v1 r1" "encodes_id ?v2 r2" "encodes_id ?v3 r3"
    and u: "distinct (generated_ids [?v1, ?v2, ?v3] [r1, r2, r3])"
    by (simp_all add: encodes_rules_def)
  from f have "lr_Filter r1 = \<lparr>flt_And = Some (''logs/'', [Tag ''team'' ''ops'']), flt_Prefix = None\<rparr>"
    and "lr_Filter r2 = \<lparr>flt_And = None, flt_Prefix = Some ''tmp/''\<rparr>"
    by (simp_all add: encodes_filter_def example_env_def)
  moreover from i have "lr_ID r1 = ''keep''"
    and "HasPrefix (lr_ID r2) ''tf-s3-lifecycle-''" and "HasPrefix (lr_ID r3) ''tf-s3-lifecycle-''"
    by (simp_all add: encodes_id_def supplied_id_def nonempty_string_def)
  moreover from u have "lr_ID r2 \<noteq> lr_ID r3"
    by (simp add: generated_ids_def supplied_id_def nonempty_string_def)
  moreover from c rs have "fst (hd (trace (snd ?run))) =
      PutBucketLifecycleConfiguration ''b'' [r1, r2, r3]"
    by (simp add: bucket_data_def Get_string_def)
  ultimately show ?thesis using inj by blast
qed

section \<open>Proofs: the update pass and create\<close>

lemma quiet_on_remote: "quiet (on_remote f)"
  by (auto simp: quiet_def on_remote_def split: prod.splits)

lemma quiet_keeps_data:
  assumes "\<And>d w err w'. g d w = (err, w') \<Longrightarrow> synclog w' = synclog w"
  shows "quiet (keeps_data g)"
  using assms by (auto simp: quiet_def keeps_data_def split: prod.splits)

lemma wrapped_retry_synclog:
  assumes "wrap_error fmt (retryOnAwsCode n code (s3_call conn c) w) = (err, w')"
  shows "synclog w' = synclog w"
proof -
  obtain e1 w1 where rt: "retryOnAwsCode n code (s3_call conn c) w = (e1, w1)"
    by (cases "retryOnAwsCode n code (s3_call conn c) w")
  with assms wrap_error_fields(1)[of fmt "(e1, w1)"] have "w' = w1" by simp
  with retryOnAwsCode_s3_call[OF rt] show ?thesis by auto
qed

lemma wrapped_retried_synclog:
  assumes "wrap_error fmt (retried n P (s3_call conn c) w) = (err, w')"
  shows "synclog w' = synclog w"
proof -
  obtain e1 w1 where rt: "retried n P (s3_call conn c) w = (e1, w1)"
    by (cases "retried n P (s3_call conn c) w")
  with assms wrap_error_fields(1)[of fmt "(e1, w1)"] have "w' = w1" by simp
  with retried_s3_call[OF rt] show ?thesis by auto
qed

lemma wrapped_call_synclog:
  assumes "wrap_error fmt (s3_call conn c w) = (err, w')"
  shows "synclog w' = synclog w"
proof -
  obtain e1 w1 where rt: "s3_call conn c w = (e1, w1)" by (cases "s3_call conn c w")
  with assms wrap_error_fields(1)[of fmt "(e1, w1)"] have "w' = w1" by simp
  with s3_call_fields[OF rt] show ?thesis by auto
qed

lemma acl_synclog:
  "resourceAwsS3BucketAclUpdate e conn d w = (err, w') \<Longrightarrow> synclog w' = synclog w"
  unfolding resourceAwsS3BucketAclUpdate_def by (rule wrapped_retry_synclog)

lemma object_lock_synclog:
  "resourceAwsS3BucketObjectLockConfigurationUpdate e conn d w = (err, w') \<Longrightarrow>
     synclog w' = synclog w"
  unfolding resourceAwsS3BucketObjectLockConfigurationUpdate_def
  by (auto split: option.splits dest: wrapped_retry_synclog)

lemma replication_synclog:
  "resourceAwsS3BucketReplicationConfigurationUpdate e conn d w = (err, w') \<Longrightarrow>
     synclog w' = synclog w"
  unfolding resourceAwsS3BucketReplicationConfigurationUpdate_def
  by (auto split: list.splits option.splits bool.splits
      dest: wrapped_retried_synclog wrapped_call_synclog)

lemma lifecycle_synclog:
  assumes "resourceAwsS3BucketLifecycleUpdate e conn d w = (err, w')"
  shows "synclog w' = synclog w"
proof (cases "Get_list d ''lifecycle_rule''")
  case Nil
  with assms show ?thesis
    by (auto simp: resourceAwsS3BucketLifecycleUpdate_def dest: wrapped_call_synclog)
next
  case (Cons v vs)
  obtain a wa where a: "lifecycleRules e (v # vs) w = (a, wa)"
    by (cases "lifecycleRules e (v # vs) w")
  note wa = lifecycleRules_world[OF a]
  from assms Cons a wa show ?thesis
    by (cases a) (auto simp: resourceAwsS3BucketLifecycleUpdate_def dest: wrapped_retry_synclog)
qed

lemma website_put_synclog:
  "resourceAwsS3BucketWebsitePut e conn d m w = (err, w') \<Longrightarrow> synclog w' = synclog w"
  unfolding resourceAwsS3BucketWebsitePut_def
  by (auto split: sum.splits dest: wrapped_retry_synclog)

lemma quiet_website: "quiet (resourceAwsS3BucketWebsiteUpdate e conn)"
proof -
  have del: "\<And>d w err d' w'. resourceAwsS3BucketWebsiteDelete e conn d w = (err, d', w') \<Longrightarrow>
      synclog w' = synclog w \<and> rd_changed d' = rd_changed d \<and>
      rd_IsNewResource d' = rd_IsNewResource d"
  proof -
    fix d w err d' w'
    assume r: "resourceAwsS3BucketWebsiteDelete e conn d w = (err, d', w')"
    let ?c = "DeleteBucketWebsite (Get_string d ''bucket'')"
    obtain e1 w1 where rt: "retryOnAwsCode (deadline_1m e) ''NoSuchBucket'' (s3_call conn ?c) w = (e1, w1)"
      by (cases "retryOnAwsCode (deadline_1m e) ''NoSuchBucket'' (s3_call conn ?c) w")
    from retryOnAwsCode_s3_call[OF rt] have "synclog w1 = synclog w" by auto
    with r rt show "synclog w' = synclog w \<and> rd_changed d' = rd_changed d \<and>
      rd_IsNewResource d' = rd_IsNewResource d"
      by (auto simp: resourceAwsS3BucketWebsiteDelete_def Set_attr_def split: option.splits)
  qed
  show ?thesis
    unfolding quiet_def resourceAwsS3BucketWebsiteUpdate_def
    by (auto split: list.splits val.splits prod.splits dest: del website_put_synclog)
qed

lemma entered_stable:
  assumes "\<forall>s \<in> set steps. stable_guard (fst s)"
    and "rd_changed d' = rd_changed d" "rd_IsNewResource d' = rd_IsNewResource d"
  shows "entered steps d' = entered steps d"
proof -
  from assms have "\<And>s. s \<in> set steps \<Longrightarrow> fst s d' = fst s d"
    unfolding stable_guard_def by blast
  then have "filter (\<lambda>s. fst s d') steps = filter (\<lambda>s. fst s d) steps"
    by (intro filter_cong) simp_all
  then show ?thesis by (simp add: entered_def)
qed

lemma run_steps_log:
  assumes "\<forall>s \<in> set steps. stable_guard (fst s) \<and> quiet (snd (snd s))"
    and "run_steps steps d w = (err, d', w')"
  shows "rd_changed d' = rd_changed d \<and> rd_IsNewResource d' = rd_IsNewResource d \<and>
         (\<exists>k. synclog w' = synclog w @ take k (entered steps d)) \<and>
         (err = None \<longrightarrow> synclog w' = synclog w @ entered steps d)"
  using assms
proof (induction steps arbitrary: d w)
  case Nil
  then show ?case by (simp add: entered_def)
next
  case (Cons s steps)
  obtain g n f where s: "s = (g, n, f)" by (cases s)
  from Cons.prems(1) s have sg: "stable_guard g" and qf: "quiet f"
    and rest: "\<forall>s \<in> set steps. stable_guard (fst s) \<and> quiet (snd (snd s))" by simp_all
  show ?case
  proof (cases "g d")
    case False
    with Cons.prems(2) s have "run_steps steps d w = (err, d', w')" by simp
    from Cons.IH[OF rest this] False s show ?thesis by (simp add: entered_def)
  next
    case True
    obtain e1 d1 w1 where f: "f d (w\<lparr>synclog := synclog w @ [n]\<rparr>) = (e1, d1, w1)"
      by (cases "f d (w\<lparr>synclog := synclog w @ [n]\<rparr>)")
    with qf have q: "synclog w1 = synclog w @ [n]" "rd_changed d1 = rd_changed d"
      "rd_IsNewResource d1 = rd_IsNewResource d"
      unfolding quiet_def by fastforce+
    have ent: "entered (s # steps) d = n # entered steps d"
      using True s by (simp add: entered_def)
    show ?thesis
    proof (cases e1)
      case (Some x)
      with Cons.prems(2) s True f have "err = Some x" "d' = d1" "w' = w1" by simp_all
      with q ent show ?thesis
        by (auto intro: exI[where x = "Suc 0"])
    next
      case None
      with Cons.prems(2) s True f have r: "run_steps steps d1 w1 = (err, d', w')" by simp
      have e1: "entered steps d1 = entered steps d"
        using entered_stable[of steps d1 d] rest q by simp
      from Cons.IH[OF rest r] obtain k where
        k: "synclog w' = synclog w1 @ take k (entered steps d1)"
        and full: "err = None \<longrightarrow> synclog w' = synclog w1 @ entered steps d1"
        and dd: "rd_changed d' = rd_changed d1" "rd_IsNewResource d' = rd_IsNewResource d1"
        by blast
      from k q e1 ent have "synclog w' = synclog w @ take (Suc k) (entered (s # steps) d)"
        by simp
      moreover from full q e1 ent have "err = None \<longrightarrow> synclog w' = synclog w @ entered (s # steps) d"
        by simp
      moreover have "rd_changed d' = rd_changed d" "rd_IsNewResource d' = rd_IsNewResource d"
        using dd q by simp_all
      ultimately show ?thesis by blast
    qed
  qed
qed

lemma count_list_take: "count_list (take k xs) a \<le> count_list xs a"
proof (induction xs arbitrary: k)
  case Nil
  then show ?case by simp
next
  case (Cons x xs)
  then show ?case by (cases k) (auto intro: le_SucI)
qed

lemma count_entered:
  "count_list (entered steps d) a = length (filter (\<lambda>s. fst s d \<and> fst (snd s) = a) steps)"
  by (induction steps) (simp_all add: entered_def)

lemma run_steps_append:
  assumes "run_steps xs d w = (None, d1, w1)"
  shows "run_steps (xs @ ys) d w = run_steps ys d1 w1"
  using assms
proof (induction xs arbitrary: d w)
  case Nil
  then show ?case by simp
next
  case (Cons s xs)
  obtain g n f where s: "s = (g, n, f)" by (cases s)
  show ?case
  proof (cases "g d")
    case False
    with Cons s show ?thesis by simp
  next
    case True
    obtain e1 d2 w2 where f: "f d (w\<lparr>synclog := synclog w @ [n]\<rparr>) = (e1, d2, w2)"
      by (cases "f d (w\<lparr>synclog := synclog w @ [n]\<rparr>)")
    with Cons.prems s True have "e1 = None" "run_steps xs d2 w2 = (None, d1, w1)"
      by (cases e1; simp)+
    with Cons.IH[of d2 w2] s True f show ?thesis by simp
  qed
qed

lemma pass_steps_ok:
  "\<forall>s \<in> set (steps_before_acl e conn other @ acl_step e conn # steps_after_acl e conn other).
     stable_guard (fst s) \<and> quiet (snd (snd s))"
proof -
  have "quiet (keeps_data (resourceAwsS3BucketAclUpdate e conn))"
    by (rule quiet_keeps_data) (rule acl_synclog)
  moreover have "quiet (keeps_data (resourceAwsS3BucketLifecycleUpdate e conn))"
    by (rule quiet_keeps_data) (rule lifecycle_synclog)
  moreover have "quiet (keeps_data (resourceAwsS3BucketReplicationConfigurationUpdate e conn))"
    by (rule quiet_keeps_data) (rule replication_synclog)
  moreover have "quiet (keeps_data (resourceAwsS3BucketObjectLockConfigurationUpdate e conn))"
    by (rule quiet_keeps_data) (rule object_lock_synclog)
  ultimately show ?thesis
    by (simp add: steps_before_acl_def acl_step_def steps_after_acl_def stable_guard_def
        HasChange_def quiet_on_remote quiet_website)
qed

lemma pass_acl_count:
  "count_list (entered (steps_before_acl e conn other @ acl_step e conn #
                        steps_after_acl e conn other) d) ''acl'' =
     (if HasChange d ''acl'' \<and> \<not> rd_IsNewResource d then 1 else 0)"
  by (simp add: count_entered steps_before_acl_def acl_step_def steps_after_acl_def)

lemma run_steps_entered_first:
  assumes ok: "stable_guard g" "quiet f" "\<forall>s \<in> set rest. stable_guard (fst s) \<and> quiet (snd (snd s))"
    and g: "g d"
    and run: "run_steps ((g, n, f) # rest) d w = (err, d', w')"
  shows "\<exists>k. synclog w' = synclog w @ n # take k (entered rest d)"
proof -
  obtain e1 d1 w1 where f: "f d (w\<lparr>synclog := synclog w @ [n]\<rparr>) = (e1, d1, w1)"
    by (cases "f d (w\<lparr>synclog := synclog w @ [n]\<rparr>)")
  with ok(2) have q: "synclog w1 = synclog w @ [n]" "rd_changed d1 = rd_changed d"
      "rd_IsNewResource d1 = rd_IsNewResource d"
    unfolding quiet_def by fastforce+
  show ?thesis
  proof (cases e1)
    case (Some x)
    with run g f have "w' = w1" by simp
    with q show ?thesis by (intro exI[where x = 0]) simp
  next
    case None
    with run g f have r: "run_steps rest d1 w1 = (err, d', w')" by simp
    from run_steps_log[OF ok(3) r] obtain k where
      "synclog w' = synclog w1 @ take k (entered rest d1)" by blast
    moreover have "entered rest d1 = entered rest d"
      using entered_stable[of rest d1 d] ok(3) q by simp
    ultimately show ?thesis using q by (intro exI[where x = k]) simp
  qed
qed

lemma on_remote_fields:
  assumes "on_remote f d w = (err, d1, w1)"
  shows "d1 = d" and "synclog w1 = synclog w" and "trace w1 = trace w"
  using assms by (auto simp: on_remote_def split: prod.splits)

lemma before_names: "count_list (entered (steps_before_acl e conn other) d) ''acl'' = 0"
  by (simp add: count_entered steps_before_acl_def)

lemma after_names: "count_list (entered (steps_after_acl e conn other) d) ''acl'' = 0"
  by (simp add: count_entered steps_after_acl_def)

lemma count_list_append: "count_list (xs @ ys) a = count_list xs a + count_list ys a"
  by (induction xs) simp_all

lemma update_acl_runs:
  assumes run: "resourceAwsS3BucketUpdate e conn other d w = (err, d', w')"
  shows "acl_runs w' \<le> Suc (acl_runs w)"
    and "rd_IsNewResource d \<or> \<not> HasChange d ''acl'' \<Longrightarrow> acl_runs w' = acl_runs w"
proof -
  let ?steps = "steps_before_acl e conn other @ acl_step e conn # steps_after_acl e conn other"
  obtain te d1 w1 where t: "on_remote (setTagsS3 other) d w = (te, d1, w1)"
    by (cases "on_remote (setTagsS3 other) d w")
  note tf = on_remote_fields[OF t]
  have "acl_runs w' \<le> Suc (acl_runs w) \<and>
        (rd_IsNewResource d \<or> \<not> HasChange d ''acl'' \<longrightarrow> acl_runs w' = acl_runs w)"
  proof (cases te)
    case (Some x)
    with run t have "w' = w1" by (simp add: resourceAwsS3BucketUpdate_def)
    with tf show ?thesis by (simp add: acl_runs_def)
  next
    case None
    obtain re d2 w2 where r: "run_steps ?steps d1 w1 = (re, d2, w2)"
      by (cases "run_steps ?steps d1 w1")
    from run_steps_log[OF pass_steps_ok r] obtain k where
      k: "synclog w2 = synclog w1 @ take k (entered ?steps d1)" by blast
    have "synclog w' = synclog w2"
    proof (cases re)
      case (Some x)
      with run t None r show ?thesis by (simp add: resourceAwsS3BucketUpdate_def)
    next
      case rn: None
      obtain fe fd fw where rd: "on_remote (Read other) d2 w2 = (fe, fd, fw)"
        by (cases "on_remote (Read other) d2 w2")
      with run t None r rn have "w' = fw" by (simp add: resourceAwsS3BucketUpdate_def)
      with on_remote_fields(2)[OF rd] show ?thesis by simp
    qed
    with k tf have log: "synclog w' = synclog w @ take k (entered ?steps d)" by simp
    have "count_list (take k (entered ?steps d)) ''acl'' \<le>
          (if HasChange d ''acl'' \<and> \<not> rd_IsNewResource d then 1 else 0)"
      using count_list_take[of k "entered ?steps d" "''acl''"] pass_acl_count[of e conn other d]
      by simp
    with log show ?thesis
      by (cases "HasChange d ''acl'' \<and> \<not> rd_IsNewResource d")
         (simp_all add: acl_runs_def count_list_append)
  qed
  then show "acl_runs w' \<le> Suc (acl_runs w)"
    and "rd_IsNewResource d \<or> \<not> HasChange d ''acl'' \<Longrightarrow> acl_runs w' = acl_runs w"
    by blast+
qed

lemma update_acl_once:
  assumes run: "resourceAwsS3BucketUpdate e conn other d w = (err, d', w')"
    and acl: "HasChange d ''acl''" "\<not> rd_IsNewResource d"
    and tags: "on_remote (setTagsS3 other) d w = (None, d1, w1)"
    and before: "run_steps (steps_before_acl e conn other) d1 w1 = (None, d2, w2)"
  shows "acl_runs w' = Suc (acl_runs w)"
proof -
  let ?before = "steps_before_acl e conn other"
  let ?after = "steps_after_acl e conn other"
  note tf = on_remote_fields[OF tags]
  have okb: "\<forall>s \<in> set ?before. stable_guard (fst s) \<and> quiet (snd (snd s))"
    and oka: "\<forall>s \<in> set ?after. stable_guard (fst s) \<and> quiet (snd (snd s))"
    and okacl: "stable_guard (fst (acl_step e conn))" "quiet (snd (snd (acl_step e conn)))"
    using pass_steps_ok[of e conn other] by simp_all
  from run_steps_log[OF okb before] tf have
    d2: "rd_changed d2 = rd_changed d" "rd_IsNewResource d2 = rd_IsNewResource d"
    and l2: "synclog w2 = synclog w @ entered ?before d"
    by simp_all
  obtain re d3 w3 where r: "run_steps (acl_step e conn # ?after) d2 w2 = (re, d3, w3)"
    by (cases "run_steps (acl_step e conn # ?after) d2 w2")
  have g: "fst (acl_step e conn) d2"
    using acl d2 by (simp add: acl_step_def HasChange_def)
  have "run_steps ((fst (acl_step e conn), fst (snd (acl_step e conn)),
          snd (snd (acl_step e conn))) # ?after) d2 w2 = (re, d3, w3)"
    using r by simp
  from run_steps_entered_first[OF okacl oka g this] obtain k where
    l3: "synclog w3 = synclog w2 @ ''acl'' # take k (entered ?after d2)"
    by (auto simp: acl_step_def)
  have full: "run_steps (?before @ acl_step e conn # ?after) d1 w1 = (re, d3, w3)"
    using run_steps_append[OF before] r by simp
  have "synclog w' = synclog w3"
  proof (cases re)
    case (Some x)
    with run tags full show ?thesis by (simp add: resourceAwsS3BucketUpdate_def)
  next
    case None
    obtain fe fd fw where rd: "on_remote (Read other) d3 w3 = (fe, fd, fw)"
      by (cases "on_remote (Read other) d3 w3")
    with run tags full None have "w' = fw" by (simp add: resourceAwsS3BucketUpdate_def)
    with on_remote_fields(2)[OF rd] show ?thesis by simp
  qed
  with l2 l3 have "synclog w' = synclog w @ entered ?before d @ ''acl'' # take k (entered ?after d2)"
    by simp
  moreover have "count_list (take k (entered ?after d2)) ''acl'' = 0"
    using count_list_take[of k "entered ?after d2" "''acl''"] after_names[of e conn other d2]
    by simp
  ultimately show ?thesis
    by (simp add: acl_runs_def count_list_append before_names)
qed

lemma create_acl_runs:
  assumes run: "resourceAwsS3BucketCreate e conn other d w = (err, d', w')"
    and new: "rd_IsNewResource d"
  shows "acl_runs w' = acl_runs w"
proof -
  obtain bucket w1 where b: "createBucketName e d w = (bucket, w1)"
    by (cases "createBucketName e d w")
  then have s1: "synclog w1 = synclog w"
    by (auto simp: createBucketName_def UniqueId_def PrefixedUniqueId_def split: if_splits)
  let ?d1 = "Set_attr d ''bucket'' (VStr bucket)"
  let ?region = "if Get_string ?d1 ''region'' \<noteq> [] then Get_string ?d1 ''region''
                           else client_region e"
  show ?thesis
  proof (cases "validateS3BucketName bucket ?region")
    case (Some x)
    with run b have "w' = w1" by (simp add: resourceAwsS3BucketCreate_def Let_def)
    with s1 show ?thesis by (simp add: acl_runs_def)
  next
    case None
    show ?thesis
    proof (cases "expandS3ObjectLockConfiguration (Get_list ?d1 ''object_lock_configuration'')")
      case n2: None
      with run b None have "w' = w1" by (simp add: resourceAwsS3BucketCreate_def Let_def)
      with s1 show ?thesis by (simp add: acl_runs_def)
    next
      case (Some olc)
      let ?c = "CreateBucket (createBucketInput bucket (Get_string ?d1 ''acl'') ?region olc)"
      obtain ce w2 where c: "retried (deadline_5m e)
          (\<lambda>err. isAWSErr (Some err) ''OperationAborted'' []) (s3_call conn ?c) w1 = (ce, w2)"
        by (cases "retried (deadline_5m e)
          (\<lambda>err. isAWSErr (Some err) ''OperationAborted'' []) (s3_call conn ?c) w1")
      from retried_s3_call[OF c] s1 have s2: "synclog w2 = synclog w" by auto
      show ?thesis
      proof (cases ce)
        case s: (Some x)
        with run b None Some c have "w' = w2"
          by (simp add: resourceAwsS3BucketCreate_def Let_def)
        with s2 show ?thesis by (simp add: acl_runs_def)
      next
        case n3: None
        with run b None Some c have
          u: "resourceAwsS3BucketUpdate e conn other (?d1\<lparr>rd_Id := bucket\<rparr>) w2 = (err, d', w')"
          by (simp add: resourceAwsS3BucketCreate_def Let_def)
        have "rd_IsNewResource (?d1\<lparr>rd_Id := bucket\<rparr>)"
          using new by (simp add: Set_attr_def)
        with update_acl_runs(2)[OF u] s2 show ?thesis by (simp add: acl_runs_def)
      qed
    qed
  qed
qed

text \<open>
  C5, as stated, for a pass that is not the creation pass: whenever the ACL has changed the
  ACL synchronizer is invoked exactly once.  A pass whose tag step fails returns before it
  reaches the ACL step.
\<close>

theorem acl_skipped_when_tags_fail:
  "\<not> rd_IsNewResource (acl_changed False) \<and> HasChange (acl_changed False) ''acl'' \<and>
   acl_runs fresh_world = 0 \<and>
   acl_runs (snd (snd (resourceAwsS3BucketUpdate example_env accepting_s3 failing_tags
                          (acl_changed False) fresh_world))) = 0"
  by (simp add: acl_changed_def bucket_data_def HasChange_def acl_runs_def fresh_world_def
      resourceAwsS3BucketUpdate_def on_remote_def failing_tags_def succeeding_def)

text \<open>
  C5, amended: in the update pass that creation triggers (the resource is new) the ACL
  synchronizer is never invoked, whether the ACL differs from its prior state or not.  In any
  other pass in which the ACL has changed it is invoked exactly once, provided the steps before
  it in the pass return no error: the tag step, and the policy, CORS, website and versioning
  synchronizers of the facets that changed.  In every pass it is invoked at most once, and
  not at all when the ACL has not changed.
\<close>

theorem acl_synchronizer_runs:
  "(resourceAwsS3BucketCreate e conn other d w = (err, d', w') \<and> rd_IsNewResource d \<longrightarrow>
      acl_runs w' = acl_runs w) \<and>
   (resourceAwsS3BucketUpdate e conn other d w = (err, d', w') \<longrightarrow>
      acl_runs w' \<le> Suc (acl_runs w) \<and>
      (rd_IsNewResource d \<or> \<not> HasChange d ''acl'' \<longrightarrow> acl_runs w' = acl_runs w) \<and>
      (\<not> rd_IsNewResource d \<and> HasChange d ''acl'' \<and>
       on_remote (setTagsS3 other) d w = (None, d1, w1) \<and>
       run_steps (steps_before_acl e conn other) d1 w1 = (None, d2, w2) \<longrightarrow>
         acl_runs w' = Suc (acl_runs w)))"
proof (intro conjI impI)
  assume "resourceAwsS3BucketCreate e conn other d w = (err, d', w') \<and> rd_IsNewResource d"
  then show "acl_runs w' = acl_runs w"
    using create_acl_runs by blast
next
  assume u: "resourceAwsS3BucketUpdate e conn other d w = (err, d', w')"
  show "acl_runs w' \<le> Suc (acl_runs w)"
    by (rule update_acl_runs(1)[OF u])
  {
    assume "rd_IsNewResource d \<or> \<not> HasChange d ''acl''"
    then show "acl_runs w' = acl_runs w"
      by (rule update_acl_runs(2)[OF u])
  }
  {
    assume "\<not> rd_IsNewResource d \<and> HasChange d ''acl'' \<and>
       on_remote (setTagsS3 other) d w = (None, d1, w1) \<and>
       run_steps (steps_before_acl e conn other) d1 w1 = (None, d2, w2)"
    then show "acl_runs w' = Suc (acl_runs w)"
      using update_acl_once[OF u] by blast
  }
qed

theorem acl_synchronizer_runs_witness:
  "fst (resourceAwsS3BucketCreate example_env accepting_s3 succeeding
          (acl_changed True) fresh_world) = None \<and>
   map fst (trace (snd (snd (resourceAwsS3BucketCreate example_env accepting_s3 succeeding
          (acl_changed True) fresh_world)))) =
     [CreateBucket \<lparr>cb_Bucket = ''b'', cb_ACL = ''public-read'', cb_LocationConstraint = None,
                     cb_ObjectLockEnabledForBucket = None\<rparr>] \<and>
   acl_runs (snd (snd (resourceAwsS3BucketCreate example_env accepting_s3 succeeding
                          (acl_changed True) fresh_world))) = 0 \<and>
   acl_runs (snd (snd (resourceAwsS3BucketUpdate example_env accepting_s3 succeeding
                          (acl_changed True) fresh_world))) = 0 \<and>
   acl_runs (snd (snd (resourceAwsS3BucketUpdate example_env accepting_s3 succeeding
                          (acl_changed False) fresh_world))) = 1"
proof -
  let ?c = "resourceAwsS3BucketCreate example_env accepting_s3 succeeding (acl_changed True)
              fresh_world"
  let ?un = "resourceAwsS3BucketUpdate example_env accepting_s3 succeeding (acl_changed True)
              fresh_world"
  let ?u = "resourceAwsS3BucketUpdate example_env accepting_s3 succeeding (acl_changed False)
              fresh_world"
  have z: "acl_runs fresh_world = 0" by (simp add: acl_runs_def fresh_world_def)
  have new: "rd_IsNewResource (acl_changed True)" and old: "\<not> rd_IsNewResource (acl_changed False)"
    and ch: "HasChange (acl_changed False) ''acl''"
    by (simp_all add: acl_changed_def HasChange_def)
  have tags: "on_remote (setTagsS3 succeeding) (acl_changed False) fresh_world =
      (None, acl_changed False, fresh_world)"
    by (simp add: on_remote_def succeeding_def fresh_world_def)
  have before: "run_steps (steps_before_acl example_env accepting_s3 succeeding)
      (acl_changed False) fresh_world = (None, acl_changed False, fresh_world)"
    by (simp add: steps_before_acl_def acl_changed_def HasChange_def)
  have c: "?c = (fst ?c, fst (snd ?c), snd (snd ?c))" by simp
  have un: "?un = (fst ?un, fst (snd ?un), snd (snd ?un))" by simp
  have u: "?u = (fst ?u, fst (snd ?u), snd (snd ?u))" by simp
  from acl_synchronizer_runs[where e = example_env and conn = accepting_s3 and other = succeeding
      and d = "acl_changed True" and w = fresh_world and err = "fst ?c" and d' = "fst (snd ?c)"
      and w' = "snd (snd ?c)", THEN conjunct1] c new
  have 1: "acl_runs (snd (snd ?c)) = acl_runs fresh_world" by blast
  from acl_synchronizer_runs[where e = example_env and conn = accepting_s3 and other = succeeding
      and d = "acl_changed True" and w = fresh_world and err = "fst ?un" and d' = "fst (snd ?un)"
      and w' = "snd (snd ?un)", THEN conjunct2] un new
  have 2: "acl_runs (snd (snd ?un)) = acl_runs fresh_world" by blast
  from acl_synchronizer_runs[where e = example_env and conn = accepting_s3 and other = succeeding
      and d = "acl_changed False" and w = fresh_world and err = "fst ?u" and d' = "fst (snd ?u)"
      and w' = "snd (snd ?u)" and ?d1.0 = "acl_changed False" and ?w1.0 = fresh_world
      and ?d2.0 = "acl_changed False" and ?w2.0 = fresh_world, THEN conjunct2]
    u old ch tags before
  have 3: "acl_runs (snd (snd ?u)) = Suc (acl_runs fresh_world)" by blast
  have 4: "fst ?c = None \<and> map fst (trace (snd (snd ?c))) =
     [CreateBucket \<lparr>cb_Bucket = ''b'', cb_ACL = ''public-read'', cb_LocationConstraint = None,
                     cb_ObjectLockEnabledForBucket = None\<rparr>]"
    by (simp add: resourceAwsS3BucketCreate_def createBucketName_def acl_changed_def
        bucket_data_def Get_string_def Get_list_def Set_attr_def example_env_def
        validateS3BucketName_def re_home_def Plus_def class_home_def in_class_def
        expandS3ObjectLockConfiguration_def createBucketInput_def retried_def
        accepting_s3_def s3_call_def fresh_world_def isResourceTimeoutError_def
        resourceAwsS3BucketUpdate_def on_remote_def succeeding_def steps_before_acl_def
        acl_step_def steps_after_acl_def HasChange_def)
  from 1 2 3 4 z show ?thesis by simp
qed

section \<open>Proofs: object lock and bucket creation\<close>




lemma no_create_map [simp]:
  "list_all (\<lambda>ce. \<not> is_create (fst ce)) (map (Pair c) es) \<longleftrightarrow> es = [] \<or> \<not> is_create c"
  by (cases es) (auto simp: list_all_iff)




















end
